theory Spec2Isabelle
  imports Main "HOL-Library.Word" "HOL-Library.Monad_Syntax"
begin

section \<open>The token-indexed Aho-Corasick automaton of libyara/ahocorasick.c\<close>

text \<open>
  The development follows the source file top down: the token generators, the trie node
  layer, string insertion, the queue and the failure-link builder. Bytes are \<open>8 word\<close>,
  the C \<open>int\<close>s are \<open>int\<close> (no value here comes near the range of a machine integer), and
  a result \<open>None\<close> of a generator means that the C code would read outside the object it
  was given.
\<close>

type_synonym byte = "8 word"

definition MAX_TOKEN :: int where
  "MAX_TOKEN = 4"

definition MAX_TABLE_BASED_STATES_DEPTH :: nat where
  "MAX_TABLE_BASED_STATES_DEPTH = 1"

subsection \<open>Patterns and the declarations of yara.h\<close>

text \<open>
  \<open>STRING\<close> is declared in yara.h, which is not part of the sources at hand. The fields the
  automaton reads are: the flag tests \<open>STRING_IS_HEX\<close> ... \<open>STRING_IS_NO_CASE\<close>, the
  pointer \<open>string\<close> (the memory it points to, indexed from 0: the code also reads the byte
  just behind the pattern), \<open>length\<close>, the \<open>mask\<close> stream of a hex pattern (the bytes of
  the mask buffer) and the regular expression handle \<open>re\<close>, of which only the answer of
  \<open>yr_regex_get_first_bytes\<close> is observed.
\<close>

record STRING =
  STRING_IS_HEX :: bool
  STRING_IS_REGEXP :: bool
  STRING_IS_ASCII :: bool
  STRING_IS_WIDE :: bool
  STRING_IS_NO_CASE :: bool
  string :: "nat \<Rightarrow> byte"
  length_s :: nat
  mask :: "byte list"
  re_first_bytes :: "byte list"

text \<open>
  The mask sentinels and the two character tables of the regular expression module are
  declared outside the file as well; every function that uses them takes them as a
  parameter.
\<close>

record yara_h =
  MASK_OR :: byte
  MASK_OR_END :: byte
  MASK_EXACT_SKIP :: byte
  MASK_RANGE_SKIP :: byte
  MASK_END :: byte
  isregexescapable :: "byte \<Rightarrow> bool"
  isregexhashable :: "byte \<Rightarrow> bool"

text \<open>The memory a pointer to the bytes \<open>bs\<close> refers to, followed by zero bytes.\<close>

definition mem_of :: "byte list \<Rightarrow> nat \<Rightarrow> byte" where
  "mem_of bs i = (if i < length bs then bs ! i else 0)"

subsection \<open>The output buffer\<close>

text \<open>
  The generators write records \<open>[size] [backtrack] [token]\<close> one after the other into the
  output buffer, each \<open>int\<close> taking \<open>sizeof(int)\<close> bytes, and \<open>_yr_ac_gen_tokens\<close> ends them
  with one more \<open>int\<close> 0. The model keeps the sequence of records written; the number of
  bytes they occupy is \<open>bytes_written\<close>.
\<close>

datatype token = Token (tok_length: int) (tok_backtrack: int) (tok_bytes: "byte list")

definition bytes_written :: "int \<Rightarrow> token list \<Rightarrow> int" where
  "bytes_written sizeof_int toks =
     (\<Sum>t\<leftarrow>toks. 2 * sizeof_int + tok_length t) + sizeof_int"

text \<open>The size \<open>yr_ac_add_string\<close> passes to \<open>yr_malloc\<close> for the buffer.\<close>

definition tokens_buffer_size :: "int \<Rightarrow> int" where
  "tokens_buffer_size sizeof_int =
     2 * (2 ^ nat MAX_TOKEN) * (2 * sizeof_int + MAX_TOKEN) + sizeof_int"

subsection \<open>Case combinations\<close>

definition is_lower :: "byte \<Rightarrow> bool" where
  "is_lower c \<longleftrightarrow> 0x61 \<le> c \<and> c \<le> 0x7A"

definition is_upper :: "byte \<Rightarrow> bool" where
  "is_upper c \<longleftrightarrow> 0x41 \<le> c \<and> c \<le> 0x5A"

definition is_letter :: "byte \<Rightarrow> bool" where
  "is_letter c \<longleftrightarrow> is_lower c \<or> is_upper c"

definition swap_case :: "byte \<Rightarrow> byte" where
  "swap_case c = (if is_lower c then c - 32 else c + 32)"

text \<open>
  \<open>_yr_ac_gen_case_combinations\<close>: \<open>token\<close> is the array of \<open>token_length\<close> bytes the
  pointer refers to, and the result is the list of records appended to the output
  buffer. The first test is not in the source: it marks the calls in which
  \<open>token[token_offset]\<close> lies outside that array.
\<close>

function gen_case_combinations ::
  "byte list \<Rightarrow> int \<Rightarrow> int \<Rightarrow> int \<Rightarrow> token list option" where
  "gen_case_combinations token token_length token_offset token_backtrack =
     (if token_offset < 0 \<or> token_length \<le> token_offset \<or> int (length token) \<noteq> token_length
      then None
      else do {
        out1 \<leftarrow> (if token_offset + 1 < token_length
                 then gen_case_combinations token token_length (token_offset + 1) token_backtrack
                 else Some []);
        let c = token ! nat token_offset;
        if is_letter c then do {
          let new_token = token[nat token_offset := swap_case c];
          out2 \<leftarrow> (if token_offset + 1 < token_length
                   then gen_case_combinations new_token token_length (token_offset + 1)
                          token_backtrack
                   else Some []);
          Some (out1 @ [Token token_length token_backtrack new_token] @ out2)
        }
        else Some out1
      })"
  by pat_completeness auto
termination
  by (relation "measure (\<lambda>(token, token_length, token_offset, token_backtrack).
        nat (token_length - token_offset))") auto

declare gen_case_combinations.simps [simp del]

subsection \<open>Text tokens\<close>

text \<open>The loop of the wide branch, writing \<open>b0 00 b1 00 ...\<close>.\<close>

function wide_loop :: "STRING \<Rightarrow> int \<Rightarrow> nat \<Rightarrow> int \<Rightarrow> byte list" where
  "wide_loop s i j token_length =
     (if i < token_length
      then (if i mod 2 = 0
            then string s j # wide_loop s (i + 1) (j + 1) token_length
            else 0 # wide_loop s (i + 1) j token_length)
      else [])"
  by pat_completeness auto
termination
  by (relation "measure (\<lambda>(s, i, j, token_length). nat (token_length - i))") auto

declare wide_loop.simps [simp del]

definition gen_ascii_tokens :: "STRING \<Rightarrow> int \<Rightarrow> token list option" where
  "gen_ascii_tokens s max_token_length =
     (if STRING_IS_ASCII s then
        (let token_length = min (int (length_s s)) max_token_length;
             str = map (string s) [0..<nat token_length]
         in if STRING_IS_NO_CASE s
            then do {
              out \<leftarrow> gen_case_combinations str token_length 0 0;
              Some (Token token_length 0 str # out)
            }
            else Some [Token token_length 0 str])
      else Some [])"

definition gen_wide_tokens :: "STRING \<Rightarrow> int \<Rightarrow> token list option" where
  "gen_wide_tokens s max_token_length =
     (if STRING_IS_WIDE s then
        (let token_length = min (int (length_s s) * 2) max_token_length;
             str = wide_loop s 0 0 token_length
         in if STRING_IS_NO_CASE s
            then do {
              out \<leftarrow> gen_case_combinations str token_length 0 0;
              Some (Token token_length 0 str # out)
            }
            else Some [Token token_length 0 str])
      else Some [])"

subsection \<open>Hex tokens\<close>

text \<open>
  The local variables of \<open>_yr_ac_gen_hex_tokens\<close>. The array \<open>last\<close> has \<open>MAX_TOKEN\<close>
  entries; \<open>unique_bytes\<close>, \<open>i\<close>, \<open>j\<close> and \<open>unique\<close> live inside one iteration only.
\<close>

record hex_state =
  hex_inside_or :: bool
  hex_token_length :: int
  hex_backtrack :: int
  hex_max_unique_bytes :: int
  hex_candidate_token_position :: int
  hex_candidate_token_length :: int
  hex_candidate_token_backtrack :: int
  hex_or_string_length :: int
  hex_previous_or_string_length :: int
  hex_string_position :: int
  hex_last :: "byte list"

definition hex_init :: hex_state where
  "hex_init = \<lparr>hex_inside_or = False, hex_token_length = 0, hex_backtrack = 0,
     hex_max_unique_bytes = 0, hex_candidate_token_position = 0,
     hex_candidate_token_length = 0, hex_candidate_token_backtrack = 0,
     hex_or_string_length = 0, hex_previous_or_string_length = 0,
     hex_string_position = 0, hex_last = replicate (nat MAX_TOKEN) 0\<rparr>"

text \<open>\<open>for (i = 0; i < max_token_length; i++) last[i] = b\<close>\<close>

definition fill_last :: "byte list \<Rightarrow> int \<Rightarrow> byte \<Rightarrow> byte list" where
  "fill_last l max_token_length b = fold (\<lambda>i l. l[i := b]) [0..<nat max_token_length] l"

text \<open>
  The two nested loops that count the entries of \<open>last\<close> which do not occur again at a
  higher index, starting from 1 for the last entry.
\<close>

definition count_unique :: "byte list \<Rightarrow> int \<Rightarrow> int" where
  "count_unique l max_token_length =
     1 + int (length (filter (\<lambda>i. \<forall>j \<in> set [i + 1..<nat max_token_length]. l ! i \<noteq> l ! j)
                        [0..<nat (max_token_length - 1)]))"

text \<open>
  The branch taken for a significant byte outside an alternation (lines 467 to 501); the
  second component tells whether the \<open>break\<close> of line 500 was reached.
\<close>

definition hex_literal :: "STRING \<Rightarrow> int \<Rightarrow> hex_state \<Rightarrow> hex_state \<times> bool" where
  "hex_literal s max_token_length st =
     (let token_length = min (hex_token_length st + 1) max_token_length;
          last' = (hex_last st)[nat (hex_string_position st mod max_token_length) :=
                     string s (nat (hex_string_position st))];
          unique_bytes = count_unique last' max_token_length;
          st = st\<lparr>hex_token_length := token_length, hex_last := last'\<rparr>
      in if unique_bytes > hex_max_unique_bytes st \<or>
            token_length > hex_candidate_token_length st
         then
           (let st = st\<lparr>hex_max_unique_bytes := unique_bytes,
                  hex_candidate_token_position := hex_string_position st - token_length + 1,
                  hex_candidate_token_backtrack := hex_backtrack st - token_length + 1,
                  hex_candidate_token_length := token_length\<rparr>
            in (st, hex_candidate_token_length st = max_token_length \<and>
                    hex_max_unique_bytes st = max_token_length))
         else (st, False))"

text \<open>Lines 451 to 461: refilling \<open>last\<close> and tracking the alternation.\<close>

definition hex_enter :: "yara_h \<Rightarrow> STRING \<Rightarrow> int \<Rightarrow> byte \<Rightarrow> hex_state \<Rightarrow> hex_state" where
  "hex_enter h s max_token_length m st =
     (let st = (if hex_token_length st = 0
                then st\<lparr>hex_last := fill_last (hex_last st) max_token_length
                                       (string s (nat (hex_string_position st)))\<rparr>
                else st);
          st = (if m = MASK_OR h then st\<lparr>hex_inside_or := True\<rparr> else st);
          st = (if m = MASK_OR_END h then st\<lparr>hex_inside_or := False\<rparr> else st)
      in st)"

text \<open>Lines 508 to 519: the position bookkeeping.\<close>

definition hex_advance :: "yara_h \<Rightarrow> byte \<Rightarrow> hex_state \<Rightarrow> hex_state" where
  "hex_advance h m st =
     (if m \<noteq> MASK_OR h \<and> m \<noteq> MASK_OR_END h \<and> m \<noteq> MASK_EXACT_SKIP h \<and> m \<noteq> MASK_RANGE_SKIP h
      then
        (let st = st\<lparr>hex_string_position := hex_string_position st + 1\<rparr>
         in if hex_inside_or st
            then st\<lparr>hex_or_string_length := hex_or_string_length st + 1\<rparr>
            else st\<lparr>hex_backtrack := hex_backtrack st + 1\<rparr>)
      else st)"

text \<open>
  One round of the \<open>while (*mask != MASK_END)\<close> loop for the mask element \<open>m\<close>, up to
  the final \<open>mask++\<close>. The round ends in a \<open>break\<close>, or goes on with the next element,
  or, after \<open>MASK_EXACT_SKIP\<close>, with the count that follows still to be read.
\<close>

datatype hex_outcome = Break hex_state | Next hex_state | Skip hex_state

definition hex_body :: "yara_h \<Rightarrow> STRING \<Rightarrow> int \<Rightarrow> byte \<Rightarrow> hex_state \<Rightarrow> hex_outcome" where
  "hex_body h s max_token_length m st =
     (let st = hex_enter h s max_token_length m st
      in case (if m = 0xFF \<and> \<not> hex_inside_or st
               then hex_literal s max_token_length st
               else (st\<lparr>hex_token_length := 0\<rparr>, False)) of
           (st, True) \<Rightarrow> Break st
         | (st, False) \<Rightarrow>
            (let st = hex_advance h m st
             in if m = MASK_EXACT_SKIP h then Skip st
                else if m = MASK_RANGE_SKIP h then Break st
                else if m = MASK_OR h \<or> m = MASK_OR_END h then
                  (let st = (if hex_previous_or_string_length st = 0
                             then st\<lparr>hex_previous_or_string_length :=
                                       hex_or_string_length st\<rparr>
                             else st)
                   in if hex_or_string_length st \<noteq> hex_previous_or_string_length st
                      then Break st
                      else
                        (let st = st\<lparr>hex_or_string_length := 0\<rparr>;
                             st = (if m = MASK_OR_END h
                                   then st\<lparr>hex_backtrack := hex_backtrack st +
                                             hex_previous_or_string_length st,
                                           hex_previous_or_string_length := 0\<rparr>
                                   else st)
                         in Next st))
                else Next st))"

text \<open>
  The loop over the rest of the mask buffer. \<open>None\<close>: the buffer ends before the loop
  does.
\<close>

fun hex_loop :: "yara_h \<Rightarrow> STRING \<Rightarrow> int \<Rightarrow> byte list \<Rightarrow> hex_state \<Rightarrow> hex_state option" where
  "hex_loop h s max_token_length [] st = None"
| "hex_loop h s max_token_length (m # rest) st =
     (if m = MASK_END h then Some st
      else
        (case hex_body h s max_token_length m st of
           Break st \<Rightarrow> Some st
         | Next st \<Rightarrow> hex_loop h s max_token_length rest st
         | Skip st \<Rightarrow>
             (case rest of
                [] \<Rightarrow> None
              | c # rest' \<Rightarrow>
                  hex_loop h s max_token_length rest'
                    (st\<lparr>hex_backtrack := hex_backtrack st + uint c\<rparr>))))"

text \<open>
  \<open>_yr_ac_gen_hex_tokens\<close>. The array \<open>last\<close> is indexed below \<open>max_token_length\<close> and
  modulo \<open>max_token_length\<close>, so the first test marks the calls that leave it.
\<close>

definition gen_hex_tokens :: "yara_h \<Rightarrow> STRING \<Rightarrow> int \<Rightarrow> token list option" where
  "gen_hex_tokens h s max_token_length =
     (if max_token_length < 1 \<or> MAX_TOKEN < max_token_length then None
      else do {
        st \<leftarrow> hex_loop h s max_token_length (mask s) hex_init;
        Some [Token (hex_candidate_token_length st) (hex_candidate_token_backtrack st)
                (map (\<lambda>k. string s (nat (hex_candidate_token_position st) + k))
                   [0..<nat (hex_candidate_token_length st)])]
      })"

subsection \<open>Regular expression tokens\<close>

text \<open>
  The \<open>while\<close> loop of \<open>_yr_ac_gen_regexp_tokens\<close>; \<open>token_length\<close> is the length of the
  list \<open>token\<close>. The characters compared are backslash, star, brace and question mark.
\<close>

function regexp_loop :: "yara_h \<Rightarrow> STRING \<Rightarrow> int \<Rightarrow> int \<Rightarrow> byte list \<Rightarrow> byte list" where
  "regexp_loop h s max_token_length i token =
     (if i < int (length_s s) \<and> int (length token) < max_token_length then
        (let current = string s (nat i);
             next = (if int (length_s s) > i + 1 then string s (nat (i + 1)) else 0)
         in if current = 0x5C \<and> isregexescapable h next
            then regexp_loop h s max_token_length (i + 2) (token @ [next])
            else if isregexhashable h current \<and> next \<noteq> 0x2A \<and> next \<noteq> 0x7B \<and> next \<noteq> 0x3F
            then regexp_loop h s max_token_length (i + 1) (token @ [current])
            else token)
      else token)"
  by pat_completeness auto
termination
  by (relation "measure (\<lambda>(h, s, max_token_length, i, token). nat (int (length_s s) - i))") auto

declare regexp_loop.simps [simp del]

definition gen_regexp_tokens :: "yara_h \<Rightarrow> STRING \<Rightarrow> int \<Rightarrow> token list option" where
  "gen_regexp_tokens h s max_token_length =
     (if MAX_TOKEN < max_token_length then None
      else
        (let i = (if string s 0 = 0x5E then 1 else 0);
             token = regexp_loop h s max_token_length i [];
             token_length = int (length token)
         in if token_length > 0 then
              (if STRING_IS_NO_CASE s
               then do {
                 out \<leftarrow> gen_case_combinations token token_length 0 0;
                 Some (Token token_length 0 token # out)
               }
               else Some [Token token_length 0 token])
            else Some (map (\<lambda>b. Token 1 0 [b]) (re_first_bytes s))))"

subsection \<open>All tokens of a pattern\<close>

text \<open>
  \<open>_yr_ac_gen_tokens\<close>. The closing \<open>int\<close> 0 is the end of the list; \<open>bytes_written\<close>
  counts it.
\<close>

definition gen_tokens :: "yara_h \<Rightarrow> STRING \<Rightarrow> int \<Rightarrow> token list option" where
  "gen_tokens h s max_token_length =
     (if STRING_IS_HEX s then gen_hex_tokens h s max_token_length
      else if STRING_IS_REGEXP s then gen_regexp_tokens h s max_token_length
      else do {
        out_ascii \<leftarrow> gen_ascii_tokens s max_token_length;
        out_wide \<leftarrow> gen_wide_tokens s max_token_length;
        Some (out_ascii @ out_wide)
      })"

text \<open>
  An assignment of the declarations of yara.h for concrete runs: five distinct sentinels
  above the wildcard range, letters and digits hashable, punctuation escapable.
\<close>

definition example_h :: yara_h where
  "example_h = \<lparr>MASK_OR = 0xF0, MASK_OR_END = 0xF1, MASK_EXACT_SKIP = 0xF2,
     MASK_RANGE_SKIP = 0xF3, MASK_END = 0xF4,
     isregexescapable = (\<lambda>c. c \<in> set [0x2E, 0x2A, 0x2B, 0x3F, 0x28, 0x29, 0x5B, 0x5D, 0x5C]),
     isregexhashable = (\<lambda>c. (0x30 \<le> c \<and> c \<le> 0x39) \<or> is_letter c)\<rparr>"

text \<open>A hex pattern given by its bytes and its mask.\<close>

definition hex_string :: "byte list \<Rightarrow> byte list \<Rightarrow> STRING" where
  "hex_string bs ms = \<lparr>STRING_IS_HEX = True, STRING_IS_REGEXP = False,
     STRING_IS_ASCII = False, STRING_IS_WIDE = False, STRING_IS_NO_CASE = False,
     string = mem_of bs, length_s = length bs, mask = ms, re_first_bytes = []\<rparr>"

subsection \<open>Concrete patterns\<close>

text \<open>The hex pattern \<open>98 56 ?? ?? 00 00 00 00 34 EB 45 97 21\<close> of the source's comment.\<close>

definition hex_example :: STRING where
  "hex_example = hex_string
     [0x98, 0x56, 0, 0, 0, 0, 0, 0, 0x34, 0xEB, 0x45, 0x97, 0x21]
     [0xFF, 0xFF, 0, 0, 0xFF, 0xFF, 0xFF, 0xFF, 0xFF, 0xFF, 0xFF, 0xFF, 0xFF, 0xF4]"

text \<open>The hex pattern \<open>01 02 ?? 00 00 00\<close>.\<close>

definition hex_zeros :: STRING where
  "hex_zeros = hex_string [1, 2, 0, 0, 0, 0] [0xFF, 0xFF, 0, 0xFF, 0xFF, 0xFF, 0xF4]"

text \<open>The text pattern \<open>"Hi"\<close> with the modifiers \<open>ascii nocase\<close>.\<close>

definition hi :: STRING where
  "hi = \<lparr>STRING_IS_HEX = False, STRING_IS_REGEXP = False,
     STRING_IS_ASCII = True, STRING_IS_WIDE = False, STRING_IS_NO_CASE = True,
     string = mem_of [0x48, 0x69], length_s = 2, mask = [], re_first_bytes = []\<rparr>"

text \<open>
  The regular expression \<open>[a-zA-Z]+x\<close>: it starts with a bracket, so no literal prefix is
  found, and its first bytes are the 52 letters.
\<close>

definition letters_regexp :: STRING where
  "letters_regexp = \<lparr>STRING_IS_HEX = False, STRING_IS_REGEXP = True,
     STRING_IS_ASCII = True, STRING_IS_WIDE = False, STRING_IS_NO_CASE = False,
     string = mem_of [0x5B, 0x61, 0x2D, 0x7A, 0x41, 0x2D, 0x5A, 0x5D, 0x2B, 0x78],
     length_s = 10, mask = [],
     re_first_bytes = map of_nat ([65..<91] @ [97..<123])\<rparr>"

subsection \<open>What the specification says about tokens\<close>

text \<open>The first \<open>min(length, T_MAX)\<close> bytes of a text pattern.\<close>

definition ascii_token :: "STRING \<Rightarrow> int \<Rightarrow> byte list" where
  "ascii_token s max_token_length =
     map (string s) [0..<nat (min (int (length_s s)) max_token_length)]"

text \<open>
  All tokens obtained from \<open>tok\<close> by independently toggling the case of each letter: every
  position holds the byte of \<open>tok\<close> or, where that is a letter, the byte in the other case.
\<close>

definition case_variants :: "byte list \<Rightarrow> byte list set" where
  "case_variants tok =
     {v. length v = length tok \<and>
         (\<forall>i < length tok. v ! i = tok ! i \<or>
            (is_letter (tok ! i) \<and> v ! i = swap_case (tok ! i)))}"

text \<open>The same variants as a list, the token itself first.\<close>

fun variants :: "byte list \<Rightarrow> byte list list" where
  "variants [] = [[]]"
| "variants (c # cs) =
     map ((#) c) (variants cs) @
     (if is_letter c then map ((#) (swap_case c)) (variants cs) else [])"





subsection \<open>States, output records and the arena\<close>

text \<open>
  Pointers are addresses, \<open>None\<close> for \<open>NULL\<close>. The two layouts of a state share the fields
  \<open>depth\<close>, \<open>failure\<close> and \<open>matches\<close>; a table based state has 256 transition slots
  indexed by the value of the input byte, a list based state a linked list of transition records
  \<open>{input, state, next}\<close>, kept here as the list of its \<open>(input, state)\<close> pairs from the head.
\<close>

type_synonym addr = nat

datatype result = ERROR_SUCCESS | ERROR_INSUFICIENT_MEMORY

record AC_MATCH =
  match_backtrack :: int
  match_string :: STRING
  match_next :: "addr option"

datatype AC_TRANSITIONS =
  Table_Based "nat \<Rightarrow> addr option"
| List_Based "(byte \<times> addr) list"

record AC_STATE =
  depth :: nat
  failure :: "addr option"
  matches :: "addr option"
  transitions :: AC_TRANSITIONS

text \<open>
  Modelled from the spec: the arena allocator is an external collaborator. The arena
  holds the states and the output records at consecutive addresses; a request (an
  allocation, or the registration of a relocatable pointer) either succeeds or reports
  insufficient memory, as \<open>arena_fails\<close> tells for the number of the request, and an
  allocated struct is zero-filled (the source relies on it: \<open>_yr_ac_create_state\<close> sets
  only \<open>depth\<close>, and the specification has the new state's matches empty and its failure
  unset).
\<close>

record ARENA =
  states :: "addr \<Rightarrow> AC_STATE"
  states_used :: nat
  match_records :: "addr \<Rightarrow> AC_MATCH"
  matches_used :: nat
  requests :: nat
  arena_fails :: "nat \<Rightarrow> bool"

definition arena_request :: "ARENA \<Rightarrow> ARENA \<times> bool" where
  "arena_request a = (a\<lparr>requests := Suc (requests a)\<rparr>, \<not> arena_fails a (requests a))"

definition zero_state :: "bool \<Rightarrow> AC_STATE" where
  "zero_state table_based =
     \<lparr>depth = 0, failure = None, matches = None,
      transitions = (if table_based then Table_Based (\<lambda>b. None) else List_Based [])\<rparr>"

definition allocate_state :: "ARENA \<Rightarrow> bool \<Rightarrow> ARENA \<times> addr option" where
  "allocate_state a table_based =
     (case arena_request a of
        (a, False) \<Rightarrow> (a, None)
      | (a, True) \<Rightarrow>
          (a\<lparr>states := (states a)(states_used a := zero_state table_based),
             states_used := Suc (states_used a)\<rparr>,
           Some (states_used a)))"

definition allocate_match :: "ARENA \<Rightarrow> STRING \<Rightarrow> ARENA \<times> addr option" where
  "allocate_match a s =
     (case arena_request a of
        (a, False) \<Rightarrow> (a, None)
      | (a, True) \<Rightarrow>
          (a\<lparr>match_records := (match_records a)(matches_used a :=
                \<lparr>match_backtrack = 0, match_string = s, match_next = None\<rparr>),
             matches_used := Suc (matches_used a)\<rparr>,
           Some (matches_used a)))"

subsection \<open>The trie node layer\<close>

text \<open>
  \<open>yr_ac_next_state\<close> picks the layout by the depth and casts. Where the layout found is
  not the one the depth asks for, the C code reads a struct through the wrong type; the
  model answers \<open>None\<close> there, and \<open>state_layout_ok\<close> names the states where this does
  not happen.
\<close>

definition state_layout_ok :: "AC_STATE \<Rightarrow> bool" where
  "state_layout_ok st =
     (case transitions st of
        Table_Based t \<Rightarrow> depth st \<le> MAX_TABLE_BASED_STATES_DEPTH
      | List_Based l \<Rightarrow> \<not> depth st \<le> MAX_TABLE_BASED_STATES_DEPTH)"

definition yr_ac_next_state :: "ARENA \<Rightarrow> addr \<Rightarrow> byte \<Rightarrow> addr option" where
  "yr_ac_next_state a state input =
     (if depth (states a state) \<le> MAX_TABLE_BASED_STATES_DEPTH
      then (case transitions (states a state) of
              Table_Based t \<Rightarrow> t (unat input)
            | List_Based l \<Rightarrow> None)
      else (case transitions (states a state) of
              List_Based l \<Rightarrow> map_of l input
            | Table_Based t \<Rightarrow> None))"

text \<open>The two ways \<open>_yr_ac_create_state\<close> installs the edge in the origin state.\<close>

definition set_table_slot :: "AC_STATE \<Rightarrow> byte \<Rightarrow> addr \<Rightarrow> AC_STATE" where
  "set_table_slot st input new_state =
     (case transitions st of
        Table_Based t \<Rightarrow> st\<lparr>transitions := Table_Based (t(unat input := Some new_state))\<rparr>
      | List_Based l \<Rightarrow> st)"

definition push_transition :: "AC_STATE \<Rightarrow> byte \<Rightarrow> addr \<Rightarrow> AC_STATE" where
  "push_transition st input new_state =
     (case transitions st of
        List_Based l \<Rightarrow> st\<lparr>transitions := List_Based ((input, new_state) # l)\<rparr>
      | Table_Based t \<Rightarrow> st)"

definition yr_ac_create_state :: "ARENA \<Rightarrow> addr \<Rightarrow> byte \<Rightarrow> ARENA \<times> addr option" where
  "yr_ac_create_state a state input =
     (case allocate_state a (depth (states a state) < MAX_TABLE_BASED_STATES_DEPTH) of
        (a, None) \<Rightarrow> (a, None)
      | (a, Some new_state) \<Rightarrow>
          (case arena_request a of
             (a, False) \<Rightarrow> (a, None)
           | (a, True) \<Rightarrow>
               (let a = (if depth (states a state) \<le> MAX_TABLE_BASED_STATES_DEPTH
                         then a\<lparr>states := (states a)(state :=
                                  set_table_slot (states a state) input new_state)\<rparr>
                         else a\<lparr>states := (states a)(state :=
                                  push_transition (states a state) input new_state)\<rparr>);
                    a = a\<lparr>states := (states a)(new_state :=
                            (states a new_state)\<lparr>depth := depth (states a state) + 1\<rparr>)\<rparr>
                in (a, Some new_state))))"

text \<open>
  The children of a state in the order \<open>_yr_ac_first_child\<close> and \<open>_yr_ac_next_child\<close>
  yield them: by increasing input byte for a table, from the head for a list.
\<close>

definition children :: "ARENA \<Rightarrow> addr \<Rightarrow> addr list" where
  "children a state =
     (if depth (states a state) \<le> MAX_TABLE_BASED_STATES_DEPTH
      then (case transitions (states a state) of
              Table_Based t \<Rightarrow> List.map_filter t [0..<256]
            | List_Based l \<Rightarrow> [])
      else (case transitions (states a state) of
              List_Based l \<Rightarrow> map snd l
            | Table_Based t \<Rightarrow> []))"

subsection \<open>Creating the automaton and adding strings\<close>

text \<open>The automaton is its root pointer.\<close>

definition yr_ac_create_automaton :: "ARENA \<Rightarrow> result \<times> ARENA \<times> addr option" where
  "yr_ac_create_automaton a =
     (case arena_request a of
        (a, False) \<Rightarrow> (ERROR_INSUFICIENT_MEMORY, a, None)
      | (a, True) \<Rightarrow>
          (case allocate_state a True of
             (a, None) \<Rightarrow> (ERROR_INSUFICIENT_MEMORY, a, None)
           | (a, Some root_state) \<Rightarrow>
               (ERROR_SUCCESS,
                a\<lparr>states := (states a)(root_state :=
                     (states a root_state)\<lparr>depth := 0, matches := None\<rparr>)\<rparr>,
                Some root_state)))"

text \<open>
  The \<open>for\<close> loop of \<open>yr_ac_add_string\<close> over the bytes of one token; \<open>None\<close> when a state
  cannot be created.
\<close>

fun walk_token :: "ARENA \<Rightarrow> addr \<Rightarrow> byte list \<Rightarrow> ARENA \<times> addr option" where
  "walk_token a state [] = (a, Some state)"
| "walk_token a state (b # bs) =
     (case yr_ac_next_state a state b of
        Some next_state \<Rightarrow> walk_token a next_state bs
      | None \<Rightarrow>
          (case yr_ac_create_state a state b of
             (a, None) \<Rightarrow> (a, None)
           | (a, Some next_state) \<Rightarrow> walk_token a next_state bs))"

text \<open>
  Lines 1046 to 1060, and their twin at lines 987 to 1001: a new output record for the
  pattern is put in front of the chain of \<open>state\<close>.
\<close>

definition attach_match :: "ARENA \<Rightarrow> addr \<Rightarrow> STRING \<Rightarrow> int \<Rightarrow> result \<times> ARENA" where
  "attach_match a state s new_backtrack =
     (case allocate_match a s of
        (a, None) \<Rightarrow> (ERROR_INSUFICIENT_MEMORY, a)
      | (a, Some new_match) \<Rightarrow>
          (let a = a\<lparr>match_records := (match_records a)(new_match :=
                       \<lparr>match_backtrack = new_backtrack, match_string = s,
                        match_next = matches (states a state)\<rparr>)\<rparr>;
               a = a\<lparr>states := (states a)(state :=
                       (states a state)\<lparr>matches := Some new_match\<rparr>)\<rparr>
           in (ERROR_SUCCESS, a)))"

text \<open>One round of the \<open>while (token_length != 0)\<close> loop, for the token record \<open>t\<close>.\<close>

definition add_token :: "ARENA \<Rightarrow> addr \<Rightarrow> STRING \<Rightarrow> token \<Rightarrow> result \<times> ARENA" where
  "add_token a root s t =
     (case walk_token a root (tok_bytes t) of
        (a, None) \<Rightarrow> (ERROR_INSUFICIENT_MEMORY, a)
      | (a, Some state) \<Rightarrow>
          attach_match a state s (int (depth (states a state)) + tok_backtrack t))"

text \<open>
  The loop itself: it ends at the record whose length is 0, with the result of the last
  allocation, and it leaves on the first failure. The third component is
  \<open>*min_token_length\<close>.
\<close>

fun add_tokens :: "ARENA \<Rightarrow> addr \<Rightarrow> STRING \<Rightarrow> token list \<Rightarrow> int \<Rightarrow> result \<times> ARENA \<times> int" where
  "add_tokens a root s [] min_token_length = (ERROR_SUCCESS, a, min_token_length)"
| "add_tokens a root s (t # ts) min_token_length =
     (if tok_length t = 0 then (ERROR_SUCCESS, a, min_token_length)
      else
        (let min_token_length =
               (if tok_length t < min_token_length then tok_length t else min_token_length)
         in case add_token a root s t of
              (ERROR_SUCCESS, a) \<Rightarrow> add_tokens a root s ts min_token_length
            | (ERROR_INSUFICIENT_MEMORY, a) \<Rightarrow>
                (ERROR_INSUFICIENT_MEMORY, a, min_token_length)))"

text \<open>
  \<open>yr_ac_add_string\<close>. \<open>tokens_allocated\<close> tells whether \<open>yr_malloc\<close> returned a buffer,
  \<open>min_token_length\<close> is the value the caller's variable holds before the call. \<open>None\<close>:
  the token generator left its input.
\<close>

definition first_token_length :: "token list \<Rightarrow> int" where
  "first_token_length toks = (case toks of [] \<Rightarrow> 0 | t # ts \<Rightarrow> tok_length t)"

definition yr_ac_add_string ::
  "yara_h \<Rightarrow> bool \<Rightarrow> ARENA \<Rightarrow> addr \<Rightarrow> STRING \<Rightarrow> int \<Rightarrow> (result \<times> ARENA \<times> int) option" where
  "yr_ac_add_string h tokens_allocated a root s min_token_length =
     (if \<not> tokens_allocated then Some (ERROR_INSUFICIENT_MEMORY, a, min_token_length)
      else
        (case gen_tokens h s MAX_TOKEN of
           None \<Rightarrow> None
         | Some toks \<Rightarrow>
             (if first_token_length toks = 0
              then (case attach_match a root s 0 of (r, a) \<Rightarrow> Some (r, a, 0))
              else Some (add_tokens a root s toks MAX_TOKEN))))"

text \<open>The token records \<open>yr_ac_add_string\<close> reads: those before the first of length 0.\<close>

definition read_tokens :: "token list \<Rightarrow> token list" where
  "read_tokens toks = takeWhile (\<lambda>t. tok_length t \<noteq> 0) toks"

text \<open>An arena in which no request has been made and none will fail.\<close>

definition empty_arena :: ARENA where
  "empty_arena = \<lparr>states = (\<lambda>p. zero_state False), states_used = 0,
     match_records = (\<lambda>p. \<lparr>match_backtrack = 0, match_string = hex_string [] [],
                          match_next = None\<rparr>),
     matches_used = 0, requests = 0, arena_fails = (\<lambda>n. False)\<rparr>"

text \<open>A state is dense when it has the table layout.\<close>

definition is_dense :: "AC_STATE \<Rightarrow> bool" where
  "is_dense st = (case transitions st of Table_Based t \<Rightarrow> True | List_Based l \<Rightarrow> False)"

text \<open>The arena after \<open>yr_ac_create_automaton\<close>: the root is state 0.\<close>

definition root_arena :: ARENA where
  "root_arena = fst (snd (yr_ac_create_automaton empty_arena))"


subsection \<open>The queue of the failure-link builder\<close>

text \<open>
  Queue nodes live in memory obtained from \<open>yr_malloc\<close>, which is outside the file: the
  functions take the memory of all nodes as a map from addresses to nodes, and
  \<open>_yr_ac_queue_push\<close> takes the pointer that \<open>yr_malloc\<close> returned. \<open>yr_free\<close> leaves the
  memory as it is.
\<close>

record QUEUE_NODE =
  node_value :: addr
  node_previous :: "addr option"
  node_next :: "addr option"

record QUEUE =
  head :: "addr option"
  tail :: "addr option"

type_synonym node_memory = "addr \<Rightarrow> QUEUE_NODE"

definition yr_ac_queue_push ::
  "node_memory \<Rightarrow> QUEUE \<Rightarrow> addr option \<Rightarrow> addr \<Rightarrow> result \<times> node_memory \<times> QUEUE" where
  "yr_ac_queue_push mem queue pushed_node v =
     (case pushed_node of
        None \<Rightarrow> (ERROR_INSUFICIENT_MEMORY, mem, queue)
      | Some p \<Rightarrow>
          (let mem = mem(p := \<lparr>node_value = v, node_previous = tail queue, node_next = None\<rparr>)
           in case tail queue of
                Some t \<Rightarrow>
                  (ERROR_SUCCESS, mem(t := (mem t)\<lparr>node_next := Some p\<rparr>),
                   queue\<lparr>tail := Some p\<rparr>)
              | None \<Rightarrow>
                  (ERROR_SUCCESS, mem, queue\<lparr>head := Some p, tail := Some p\<rparr>)))"

definition yr_ac_queue_pop :: "node_memory \<Rightarrow> QUEUE \<Rightarrow> addr option \<times> node_memory \<times> QUEUE" where
  "yr_ac_queue_pop mem queue =
     (case head queue of
        None \<Rightarrow> (None, mem, queue)
      | Some popped_node \<Rightarrow>
          (case node_next (mem popped_node) of
             Some new_head \<Rightarrow>
               (let mem = mem(new_head := (mem new_head)\<lparr>node_previous := None\<rparr>)
                in (Some (node_value (mem popped_node)), mem, queue\<lparr>head := Some new_head\<rparr>))
           | None \<Rightarrow>
               (Some (node_value (mem popped_node)), mem, queue\<lparr>head := None, tail := None\<rparr>)))"

definition yr_ac_queue_is_empty :: "QUEUE \<Rightarrow> bool" where
  "yr_ac_queue_is_empty queue \<longleftrightarrow> head queue = None"

definition empty_queue :: QUEUE where
  "empty_queue = \<lparr>head = None, tail = None\<rparr>"

definition empty_memory :: node_memory where
  "empty_memory = (\<lambda>p. \<lparr>node_value = 0, node_previous = None, node_next = None\<rparr>)"

subsection \<open>Failure links\<close>

text \<open>
  The state of \<open>yr_ac_create_failure_links\<close>: the arena, the queue with the memory of its
  nodes, and the number of calls of \<open>yr_malloc\<close> so far. The function \<open>yr_malloc\<close> given to
  the definitions below tells the pointer returned by each call.
\<close>

record links_state =
  ls_arena :: ARENA
  ls_memory :: node_memory
  ls_queue :: QUEUE
  ls_mallocs :: nat

text \<open>A call of \<open>_yr_ac_queue_push\<close> whose result is dropped, as at lines 812 and 843.\<close>

definition push_state :: "(nat \<Rightarrow> addr option) \<Rightarrow> links_state \<Rightarrow> addr \<Rightarrow> links_state" where
  "push_state yr_malloc c v =
     (case yr_ac_queue_push (ls_memory c) (ls_queue c) (yr_malloc (ls_mallocs c)) v of
        (r, mem, queue) \<Rightarrow>
          c\<lparr>ls_memory := mem, ls_queue := queue, ls_mallocs := Suc (ls_mallocs c)\<rparr>)"

definition set_failure :: "ARENA \<Rightarrow> addr \<Rightarrow> addr \<Rightarrow> ARENA" where
  "set_failure a state target =
     a\<lparr>states := (states a)(state := (states a state)\<lparr>failure := Some target\<rparr>)\<rparr>"

definition set_matches :: "ARENA \<Rightarrow> addr \<Rightarrow> addr option \<Rightarrow> ARENA" where
  "set_matches a state m =
     a\<lparr>states := (states a)(state := (states a state)\<lparr>matches := m\<rparr>)\<rparr>"

definition set_match_next :: "ARENA \<Rightarrow> addr \<Rightarrow> addr option \<Rightarrow> ARENA" where
  "set_match_next a m n =
     a\<lparr>match_records := (match_records a)(m := (match_records a m)\<lparr>match_next := n\<rparr>)\<rparr>"

text \<open>
  The three loops below have no bound in the source and need not end on every arena
  (a cyclic chain, a cycle of failure links). They are defined with fuel: each round
  takes one unit, and \<open>None\<close> is the answer when the fuel runs out, or when the C code
  would follow a \<open>NULL\<close> pointer.
\<close>

text \<open>\<open>while (match->next != NULL) match = match->next\<close>: the last record of a chain.\<close>

fun last_match :: "nat \<Rightarrow> ARENA \<Rightarrow> addr \<Rightarrow> addr option" where
  "last_match 0 a m = None"
| "last_match (Suc fuel) a m =
     (case match_next (match_records a m) of
        None \<Rightarrow> Some m
      | Some n \<Rightarrow> last_match fuel a n)"

text \<open>Lines 824 to 837: the chain of the state taken from the queue and the root's chain.\<close>

definition adjust_matches :: "nat \<Rightarrow> ARENA \<Rightarrow> addr \<Rightarrow> addr \<Rightarrow> ARENA option" where
  "adjust_matches fuel a root_state current_state =
     (case matches (states a current_state) of
        Some m \<Rightarrow>
          (case last_match fuel a m of
             None \<Rightarrow> None
           | Some l \<Rightarrow>
               Some (if match_backtrack (match_records a l) > 0
                     then set_match_next a l (matches (states a root_state))
                     else a))
      | None \<Rightarrow> Some (set_matches a current_state (matches (states a root_state))))"

text \<open>
  The \<open>while (1)\<close> loop of lines 846 to 882 up to its \<open>break\<close>: \<open>Some temp_state\<close> when a
  transition on \<open>input\<close> was found along the failure links, \<open>None\<close> when the root was
  reached without one.
\<close>

fun find_failure :: "nat \<Rightarrow> ARENA \<Rightarrow> addr \<Rightarrow> byte \<Rightarrow> addr \<Rightarrow> addr option option" where
  "find_failure 0 a root_state input failure_state = None"
| "find_failure (Suc fuel) a root_state input failure_state =
     (case yr_ac_next_state a failure_state input of
        Some temp_state \<Rightarrow> Some (Some temp_state)
      | None \<Rightarrow>
          (if failure_state = root_state then Some None
           else (case failure (states a failure_state) of
                   None \<Rightarrow> None
                 | Some f \<Rightarrow> find_failure fuel a root_state input f)))"

text \<open>
  Lines 844 to 882 for one child \<open>transition_state\<close> of \<open>current_state\<close>. The source
  passes the variable \<open>i\<close> to \<open>yr_ac_next_state\<close>, which is declared at line 784 and never
  assigned; \<open>input\<close> is the byte the conversion of \<open>i\<close> to \<open>uint8_t\<close> yields.
\<close>

definition link_state :: "nat \<Rightarrow> ARENA \<Rightarrow> addr \<Rightarrow> byte \<Rightarrow> addr \<Rightarrow> addr \<Rightarrow> ARENA option" where
  "link_state fuel a root_state input current_state transition_state =
     (case failure (states a current_state) of
        None \<Rightarrow> None
      | Some failure_state \<Rightarrow>
          (case find_failure fuel a root_state input failure_state of
             None \<Rightarrow> None
           | Some (Some temp_state) \<Rightarrow>
               (let a = set_failure a transition_state temp_state
                in case matches (states a transition_state) of
                     None \<Rightarrow>
                       Some (set_matches a transition_state (matches (states a temp_state)))
                   | Some m \<Rightarrow>
                       (case last_match fuel a m of
                          None \<Rightarrow> None
                        | Some l \<Rightarrow>
                            Some (set_match_next a l (matches (states a temp_state)))))
           | Some None \<Rightarrow> Some (set_failure a transition_state root_state)))"

text \<open>
  The loop of lines 841 to 885 over the children of \<open>current_state\<close>. No transition
  changes in it, so the children are those found when it starts.
\<close>

fun link_children ::
  "nat \<Rightarrow> (nat \<Rightarrow> addr option) \<Rightarrow> addr \<Rightarrow> byte \<Rightarrow> addr \<Rightarrow> addr list \<Rightarrow> links_state \<Rightarrow>
   links_state option" where
  "link_children fuel yr_malloc root_state input current_state [] c = Some c"
| "link_children fuel yr_malloc root_state input current_state (t # ts) c =
     (let c = push_state yr_malloc c t
      in case link_state fuel (ls_arena c) root_state input current_state t of
           None \<Rightarrow> None
         | Some a \<Rightarrow>
             link_children fuel yr_malloc root_state input current_state ts
               (c\<lparr>ls_arena := a\<rparr>))"

text \<open>
  The loop of lines 820 to 887. The list collects the states in the order in which they
  leave the queue; the source does not keep it.
\<close>

fun links_loop ::
  "nat \<Rightarrow> (nat \<Rightarrow> addr option) \<Rightarrow> addr \<Rightarrow> byte \<Rightarrow> links_state \<Rightarrow> addr list \<Rightarrow>
   (links_state \<times> addr list) option" where
  "links_loop 0 yr_malloc root_state input c visited = None"
| "links_loop (Suc fuel) yr_malloc root_state input c visited =
     (if yr_ac_queue_is_empty (ls_queue c) then Some (c, visited)
      else
        (case yr_ac_queue_pop (ls_memory c) (ls_queue c) of
           (None, mem, queue) \<Rightarrow> None
         | (Some current_state, mem, queue) \<Rightarrow>
             (case adjust_matches fuel (ls_arena c) root_state current_state of
                None \<Rightarrow> None
              | Some a \<Rightarrow>
                  (case link_children fuel yr_malloc root_state input current_state
                          (children a current_state)
                          (c\<lparr>ls_arena := a, ls_memory := mem, ls_queue := queue\<rparr>) of
                     None \<Rightarrow> None
                   | Some c \<Rightarrow>
                       links_loop fuel yr_malloc root_state input c
                         (visited @ [current_state])))))"

text \<open>Lines 798 to 815: the root's failure link and its children.\<close>

definition links_init :: "(nat \<Rightarrow> addr option) \<Rightarrow> ARENA \<Rightarrow> addr \<Rightarrow> links_state" where
  "links_init yr_malloc a root_state =
     fold (\<lambda>state c. (push_state yr_malloc c state)
                        \<lparr>ls_arena := set_failure (ls_arena c) state root_state\<rparr>)
       (children a root_state)
       \<lparr>ls_arena = set_failure a root_state root_state, ls_memory = empty_memory,
        ls_queue = empty_queue, ls_mallocs = 0\<rparr>"

definition yr_ac_create_failure_links ::
  "nat \<Rightarrow> (nat \<Rightarrow> addr option) \<Rightarrow> ARENA \<Rightarrow> addr \<Rightarrow> byte \<Rightarrow>
   (links_state \<times> addr list) option" where
  "yr_ac_create_failure_links fuel yr_malloc a root_state input =
     links_loop fuel yr_malloc root_state input (links_init yr_malloc a root_state) []"

text \<open>A text pattern with the modifier \<open>ascii\<close> only.\<close>

definition ascii_string :: "byte list \<Rightarrow> STRING" where
  "ascii_string bs = \<lparr>STRING_IS_HEX = False, STRING_IS_REGEXP = False,
     STRING_IS_ASCII = True, STRING_IS_WIDE = False, STRING_IS_NO_CASE = False,
     string = mem_of bs, length_s = length bs, mask = [], re_first_bytes = []\<rparr>"

text \<open>Adding one pattern after the other, as long as no call fails.\<close>

fun add_strings :: "yara_h \<Rightarrow> ARENA \<Rightarrow> addr \<Rightarrow> STRING list \<Rightarrow> ARENA option" where
  "add_strings h a root [] = Some a"
| "add_strings h a root (s # ss) =
     (case yr_ac_add_string h True a root s 0 of
        Some (ERROR_SUCCESS, a, m) \<Rightarrow> add_strings h a root ss
      | _ \<Rightarrow> None)"

text \<open>
  The automaton for the patterns she, he, his and hers. Its states are numbered in the
  order of their creation: 1 s, 2 sh, 3 she, 4 h, 5 he, 6 hi, 7 his, 8 her, 9 hers.
\<close>

definition ushers_arena :: ARENA where
  "ushers_arena = the (add_strings example_h root_arena 0
     [ascii_string [0x73, 0x68, 0x65], ascii_string [0x68, 0x65],
      ascii_string [0x68, 0x69, 0x73], ascii_string [0x68, 0x65, 0x72, 0x73]])"

text \<open>An allocator that returns a new block at each call.\<close>

definition fresh_malloc :: "nat \<Rightarrow> addr option" where
  "fresh_malloc k = Some k"

subsection \<open>The queue as a list\<close>

text \<open>
  The nodes of a queue, from the head, as pairs of the node's address and its value:
  each node holds its value and points back to the node before it, the links lead from
  one to the next, and the last link is \<open>NULL\<close>.
\<close>

fun queue_segment ::
  "node_memory \<Rightarrow> addr option \<Rightarrow> addr option \<Rightarrow> (addr \<times> addr) list \<Rightarrow> addr option \<Rightarrow> bool" where
  "queue_segment mem prev p [] last_node \<longleftrightarrow> p = None \<and> last_node = prev"
| "queue_segment mem prev p ((n, v) # rest) last_node \<longleftrightarrow>
     p = Some n \<and> node_value (mem n) = v \<and> node_previous (mem n) = prev \<and>
     queue_segment mem (Some n) (node_next (mem n)) rest last_node"

definition queue_holds :: "node_memory \<Rightarrow> QUEUE \<Rightarrow> (addr \<times> addr) list \<Rightarrow> bool" where
  "queue_holds mem queue nvs \<longleftrightarrow>
     queue_segment mem None (head queue) nvs (tail queue) \<and> distinct (map fst nvs)"





subsection \<open>What the traversal needs\<close>


definition same_shape :: "ARENA \<Rightarrow> ARENA \<Rightarrow> bool" where
  "same_shape a b \<longleftrightarrow>
     (\<forall>s. depth (states a s) = depth (states b s) \<and>
          transitions (states a s) = transitions (states b s))"


definition queue_inv :: "(nat \<Rightarrow> addr option) \<Rightarrow> links_state \<Rightarrow> addr list \<Rightarrow> bool" where
  "queue_inv yr_malloc c vs \<longleftrightarrow>
     (\<exists>nvs. queue_holds (ls_memory c) (ls_queue c) nvs \<and> map snd nvs = vs \<and>
            (\<forall>n \<in> fst ` set nvs. \<exists>j < ls_mallocs c. yr_malloc j = Some n))"




subsection \<open>Output chains as lists\<close>

text \<open>The records of an output chain, from the pointer \<open>p\<close> to the \<open>NULL\<close> that ends it.\<close>

fun match_chain :: "ARENA \<Rightarrow> addr option \<Rightarrow> addr list \<Rightarrow> bool" where
  "match_chain a p [] \<longleftrightarrow> p = None"
| "match_chain a p (m # ms) \<longleftrightarrow> p = Some m \<and> match_chain a (match_next (match_records a m)) ms"

text \<open>
  An arena with a pattern at the root: the hex pattern \<open>??\<close>, which has no literal byte,
  is added first, then the text pattern \<open>a\<close>. Record 0 hangs at the root, record 1 at
  state 1.
\<close>

definition root_match_arena :: ARENA where
  "root_match_arena = the (add_strings example_h root_arena 0
     [hex_string [0] [0, 0xF4], ascii_string [0x61]])"

subsection \<open>Two automata for the failure links\<close>

text \<open>
  The states of \<open>ushers_arena\<close> written out: the root with the edges s and h, then
  s, sh, she, h (with the edges e and i), he, hi, his, her, hers.
\<close>

definition ushers_states :: "addr \<Rightarrow> AC_STATE" where
  "ushers_states = (\<lambda>p. zero_state False)
     (0 := \<lparr>depth = 0, failure = None, matches = None,
            transitions = Table_Based ((\<lambda>b. None)(115 := Some 1, 104 := Some 4))\<rparr>,
      1 := \<lparr>depth = 1, failure = None, matches = None,
            transitions = Table_Based ((\<lambda>b. None)(104 := Some 2))\<rparr>,
      2 := \<lparr>depth = 2, failure = None, matches = None,
            transitions = List_Based [(0x65, 3)]\<rparr>,
      3 := \<lparr>depth = 3, failure = None, matches = Some 0,
            transitions = List_Based []\<rparr>,
      4 := \<lparr>depth = 1, failure = None, matches = None,
            transitions = Table_Based ((\<lambda>b. None)(101 := Some 5, 105 := Some 6))\<rparr>,
      5 := \<lparr>depth = 2, failure = None, matches = Some 1,
            transitions = List_Based [(0x72, 8)]\<rparr>,
      6 := \<lparr>depth = 2, failure = None, matches = None,
            transitions = List_Based [(0x73, 7)]\<rparr>,
      7 := \<lparr>depth = 3, failure = None, matches = Some 2,
            transitions = List_Based []\<rparr>,
      8 := \<lparr>depth = 3, failure = None, matches = None,
            transitions = List_Based [(0x73, 9)]\<rparr>,
      9 := \<lparr>depth = 4, failure = None, matches = Some 3,
            transitions = List_Based []\<rparr>)"

text \<open>
  The automaton for the single pattern aab: state 1 is a, state 2 is aa, state 3 is
  aab. The longest proper suffix of aa that is a state is a; no proper suffix of aab
  but the empty one is a state.
\<close>

definition aab_arena :: ARENA where
  "aab_arena = the (add_strings example_h root_arena 0 [ascii_string [0x61, 0x61, 0x62]])"

definition aab_states :: "addr \<Rightarrow> AC_STATE" where
  "aab_states = (\<lambda>p. zero_state False)
     (0 := \<lparr>depth = 0, failure = None, matches = None,
            transitions = Table_Based ((\<lambda>b. None)(97 := Some 1))\<rparr>,
      1 := \<lparr>depth = 1, failure = None, matches = None,
            transitions = Table_Based ((\<lambda>b. None)(97 := Some 2))\<rparr>,
      2 := \<lparr>depth = 2, failure = None, matches = None,
            transitions = List_Based [(0x62, 3)]\<rparr>,
      3 := \<lparr>depth = 3, failure = None, matches = Some 0,
            transitions = List_Based []\<rparr>)"

text \<open>
  What the failure links hold while they are built from the arena \<open>a0\<close>: the shape
  stays, and every link leads to the root or to a state that some state reaches on the
  byte \<open>input\<close>; and, for a byte on which the root has no transition, every link leads to
  the root.
\<close>

definition links_from_input :: "ARENA \<Rightarrow> addr \<Rightarrow> byte \<Rightarrow> ARENA \<Rightarrow> bool" where
  "links_from_input a0 root_state input a \<longleftrightarrow>
     same_shape a a0 \<and>
     (\<forall>s r. failure (states a s) = Some r \<longrightarrow>
        r = root_state \<or> (\<exists>f. yr_ac_next_state a0 f input = Some r))"

definition links_to_root :: "ARENA \<Rightarrow> addr \<Rightarrow> ARENA \<Rightarrow> bool" where
  "links_to_root a0 root_state a \<longleftrightarrow>
     same_shape a a0 \<and> (\<forall>s r. failure (states a s) = Some r \<longrightarrow> r = root_state)"

subsection \<open>The candidate rule of the hex token loop\<close>





text \<open>
  The state in which the loop of \<open>hex_zeros\<close> reaches its last byte: the candidate is
  \<open>01 02\<close>, and two zero bytes of the run after the wildcard have been seen.
\<close>

definition hex_zeros_at_5 :: hex_state where
  "hex_zeros_at_5 = \<lparr>hex_inside_or = False, hex_token_length = 2, hex_backtrack = 5,
     hex_max_unique_bytes = 2, hex_candidate_token_position = 0,
     hex_candidate_token_length = 2, hex_candidate_token_backtrack = 0,
     hex_or_string_length = 0, hex_previous_or_string_length = 0,
     hex_string_position = 5, hex_last = [0, 0, 0, 0]\<rparr>"

section \<open>Properties\<close>

subsection \<open>Case combinations\<close>

lemma swap_case_neq: "swap_case c \<noteq> c"
  by (simp add: swap_case_def)

lemma variants_nonempty: "variants cs \<noteq> []"
  by (induction cs) auto

lemma hd_variants: "hd (variants cs) = cs"
  by (induction cs) (auto simp: variants_nonempty hd_append hd_map)

lemma length_variants: "length (variants cs) = 2 ^ length (filter is_letter cs)"
  by (induction cs) auto

lemma length_in_variants: "v \<in> set (variants cs) \<Longrightarrow> length v = length cs"
  by (induction cs arbitrary: v) (auto split: if_splits)

lemma distinct_variants: "distinct (variants cs)"
  by (induction cs) (auto simp: distinct_map swap_case_neq swap_case_neq [symmetric] inj_on_def)

lemma case_variants_Nil: "case_variants [] = {[]}"
  by (auto simp: case_variants_def)

lemma case_variants_Cons:
  "case_variants (c # cs) =
     (#) c ` case_variants cs \<union> (if is_letter c then (#) (swap_case c) ` case_variants cs else {})"
proof (intro set_eqI iffI)
  fix v assume "v \<in> case_variants (c # cs)"
  then have len: "length v = Suc (length cs)"
    and all: "\<forall>i < Suc (length cs). v ! i = (c # cs) ! i \<or>
                (is_letter ((c # cs) ! i) \<and> v ! i = swap_case ((c # cs) ! i))"
    by (auto simp: case_variants_def)
  from len obtain x w where v: "v = x # w" and lw: "length w = length cs"
    by (cases v) auto
  from all have h0: "x = c \<or> (is_letter c \<and> x = swap_case c)"
    unfolding v by (auto dest: spec [of _ 0])
  have "\<forall>i < length cs. w ! i = cs ! i \<or> (is_letter (cs ! i) \<and> w ! i = swap_case (cs ! i))"
  proof (intro allI impI)
    fix i assume "i < length cs"
    then have "Suc i < Suc (length cs)" by simp
    with all have "v ! Suc i = (c # cs) ! Suc i \<or>
                (is_letter ((c # cs) ! Suc i) \<and> v ! Suc i = swap_case ((c # cs) ! Suc i))"
      by blast
    then show "w ! i = cs ! i \<or> (is_letter (cs ! i) \<and> w ! i = swap_case (cs ! i))"
      by (simp add: v)
  qed
  with lw have "w \<in> case_variants cs" by (simp add: case_variants_def)
  with h0 v show "v \<in> (#) c ` case_variants cs \<union>
        (if is_letter c then (#) (swap_case c) ` case_variants cs else {})"
    by auto
next
  fix v assume "v \<in> (#) c ` case_variants cs \<union>
        (if is_letter c then (#) (swap_case c) ` case_variants cs else {})"
  then obtain x w where v: "v = x # w" and w: "w \<in> case_variants cs"
    and x: "x = c \<or> (is_letter c \<and> x = swap_case c)"
    by (auto split: if_splits)
  show "v \<in> case_variants (c # cs)"
    unfolding case_variants_def v using w x
    by (auto simp: case_variants_def nth_Cons split: nat.splits)
qed

lemma set_variants: "set (variants cs) = case_variants cs"
  by (induction cs) (auto simp: case_variants_Nil case_variants_Cons)

lemma tl_variants_Cons:
  "tl (variants (c # cs)) =
     map ((#) c) (tl (variants cs)) @
     (if is_letter c then map ((#) (swap_case c)) (variants cs) else [])"
  using variants_nonempty [of cs] by (cases "variants cs") auto

lemma gen_case_combinations_variants:
  "0 \<le> token_offset \<Longrightarrow> token_offset < token_length \<Longrightarrow> int (length token) = token_length \<Longrightarrow>
   gen_case_combinations token token_length token_offset token_backtrack =
     Some (map (\<lambda>v. Token token_length token_backtrack (take (nat token_offset) token @ v))
             (tl (variants (drop (nat token_offset) token))))"
proof (induction token token_length token_offset token_backtrack
    rule: gen_case_combinations.induct)
  case (1 token token_length token_offset token_backtrack)
  let ?o = "nat token_offset"
  let ?c = "token ! ?o"
  let ?new = "token[?o := swap_case ?c]"
  let ?D = "drop (Suc ?o) token"
  let ?T = "Token token_length token_backtrack"
  define O1 where "O1 = map (\<lambda>v. ?T (take (Suc ?o) token @ v)) (tl (variants ?D))"
  define O2 where "O2 = map (\<lambda>v. ?T (take (Suc ?o) ?new @ v)) (tl (variants ?D))"
  from "1.prems" have o: "?o < length token" by linarith
  have suc: "nat (token_offset + 1) = Suc ?o" using "1.prems" by linarith
  have g: "\<not> (token_offset < 0 \<or> token_length \<le> token_offset \<or>
             int (length token) \<noteq> token_length)"
    using "1.prems" by simp
  have dr: "drop ?o token = ?c # ?D"
    using o by (simp add: Cons_nth_drop_Suc)
  have out1: "(if token_offset + 1 < token_length
                 then gen_case_combinations token token_length (token_offset + 1) token_backtrack
                 else Some []) = Some O1"
  proof (cases "token_offset + 1 < token_length")
    case True
    with "1.IH"(1) "1.prems" show ?thesis by (simp add: suc O1_def)
  next
    case False
    with "1.prems" have "Suc ?o = length token" by linarith
    with False show ?thesis by (simp add: O1_def)
  qed
  have out2: "(if token_offset + 1 < token_length
                   then gen_case_combinations ?new token_length (token_offset + 1)
                          token_backtrack
                   else Some []) = Some O2" if letter: "is_letter ?c"
  proof (cases "token_offset + 1 < token_length")
    case True
    from "1.IH"(2) [OF g out1 refl letter refl True] "1.prems" True show ?thesis
      by (simp add: suc O2_def)
  next
    case False
    with "1.prems" have "Suc ?o = length token" by linarith
    with False show ?thesis by (simp add: O2_def)
  qed
  have lhs: "gen_case_combinations token token_length token_offset token_backtrack =
      Some (O1 @ (if is_letter ?c then [?T ?new] @ O2 else []))"
  proof (cases "is_letter ?c")
    case True
    show ?thesis
      by (subst gen_case_combinations.simps) (simp only: g out1 out2 [OF True] True Let_def if_True if_False bind.bind_lunit)
  next
    case False
    show ?thesis
      by (subst gen_case_combinations.simps) (simp only: g out1 False Let_def if_True if_False bind.bind_lunit append_Nil2)
  qed
  have tk: "take (Suc ?o) token = take ?o token @ [?c]"
    using o by (simp add: take_Suc_conv_app_nth)
  have tkn: "take (Suc ?o) ?new = take ?o token @ [swap_case ?c]"
    using o by (simp add: take_Suc_conv_app_nth)
  have newv: "?new = take ?o token @ swap_case ?c # ?D"
    using o by (simp add: upd_conv_take_nth_drop)
  have hdv: "variants ?D = ?D # tl (variants ?D)"
    using hd_variants [of ?D] variants_nonempty [of ?D]
    by (cases "variants ?D") auto
  have vs: "map ((#) (swap_case ?c)) (variants ?D) =
       (swap_case ?c # ?D) # map ((#) (swap_case ?c)) (tl (variants ?D))"
    by (subst hdv) simp
  have rhs: "map (\<lambda>v. ?T (take ?o token @ v)) (tl (variants (drop ?o token))) =
      O1 @ (if is_letter ?c then [?T ?new] @ O2 else [])"
    unfolding dr tl_variants_Cons O1_def O2_def tk tkn
    by (simp add: vs newv [symmetric] comp_def)
  show ?case unfolding lhs rhs ..
qed

lemma gen_case_combinations_top:
  assumes "0 < token_length" and "int (length token) = token_length"
  shows "gen_case_combinations token token_length 0 token_backtrack =
     Some (map (Token token_length token_backtrack) (tl (variants token)))"
  using gen_case_combinations_variants [of 0 token_length token token_backtrack] assms
  by simp

lemma gen_ascii_tokens_no_case:
  assumes "STRING_IS_ASCII s" "STRING_IS_NO_CASE s" "0 < length_s s" "0 < max_token_length"
  shows "gen_ascii_tokens s max_token_length =
     Some (map (Token (min (int (length_s s)) max_token_length) 0)
             (variants (ascii_token s max_token_length)))"
proof -
  let ?L = "min (int (length_s s)) max_token_length"
  let ?tok = "ascii_token s max_token_length"
  have L: "0 < ?L" using assms by simp
  have len: "int (length ?tok) = ?L" using L by (simp add: ascii_token_def)
  have v: "variants ?tok = ?tok # tl (variants ?tok)"
    using hd_variants [of ?tok] variants_nonempty [of ?tok] by (cases "variants ?tok") auto
  have "gen_ascii_tokens s max_token_length =
      Some (Token ?L 0 ?tok # map (Token ?L 0) (tl (variants ?tok)))"
    using assms(1,2) gen_case_combinations_top [OF L len, of 0]
    by (simp add: gen_ascii_tokens_def Let_def ascii_token_def)
  also have "Token ?L 0 ?tok # map (Token ?L 0) (tl (variants ?tok)) =
      map (Token ?L 0) (variants ?tok)"
    by (subst (2) v) simp
  finally show ?thesis .
qed

text \<open>
  C7. An ASCII case-insensitive text pattern whose first \<open>min(length, T_MAX)\<close> bytes
  contain \<open>k\<close> letters yields exactly \<open>2 ^ k\<close> records: the token itself first, and
  altogether every combination of toggled letters exactly once, each with the length of
  the token and backtrack 0.
\<close>

theorem ascii_no_case_tokens:
  assumes "\<not> STRING_IS_HEX s" and "\<not> STRING_IS_REGEXP s"
    and "STRING_IS_ASCII s" and "\<not> STRING_IS_WIDE s" and "STRING_IS_NO_CASE s"
    and "0 < length_s s" and "0 < max_token_length"
  shows "\<exists>out. gen_tokens h s max_token_length = Some out \<and>
     length out = 2 ^ length (filter is_letter (ascii_token s max_token_length)) \<and>
     distinct out \<and>
     hd out = Token (min (int (length_s s)) max_token_length) 0 (ascii_token s max_token_length) \<and>
     set out = Token (min (int (length_s s)) max_token_length) 0 `
                 case_variants (ascii_token s max_token_length)"
proof -
  let ?L = "min (int (length_s s)) max_token_length"
  let ?tok = "ascii_token s max_token_length"
  let ?out = "map (Token ?L 0) (variants ?tok)"
  have "gen_tokens h s max_token_length = Some ?out"
    using assms gen_ascii_tokens_no_case [of s max_token_length]
    by (simp add: gen_tokens_def gen_wide_tokens_def)
  moreover have "length ?out = 2 ^ length (filter is_letter ?tok)"
    by (simp add: length_variants)
  moreover have "distinct ?out"
    by (simp add: distinct_map distinct_variants inj_on_def)
  moreover have "hd ?out = Token ?L 0 ?tok"
    by (simp add: hd_map variants_nonempty hd_variants)
  moreover have "set ?out = Token ?L 0 ` case_variants ?tok"
    by (simp add: set_variants)
  ultimately show ?thesis by blast
qed

lemma hi_tokens:
  "gen_tokens example_h hi MAX_TOKEN =
     Some [Token 2 0 [0x48, 0x69], Token 2 0 [0x48, 0x49],
           Token 2 0 [0x68, 0x69], Token 2 0 [0x68, 0x49]]"
  by code_simp

lemma hi_ascii_token: "ascii_token hi MAX_TOKEN = [0x48, 0x69]"
  by code_simp

lemma hi_letters: "length (filter is_letter [0x48, 0x69]) = 2"
  by code_simp

theorem ascii_no_case_tokens_hi:
  "(\<not> STRING_IS_HEX hi \<and> \<not> STRING_IS_REGEXP hi \<and> STRING_IS_ASCII hi \<and>
    \<not> STRING_IS_WIDE hi \<and> STRING_IS_NO_CASE hi \<and> 0 < length_s hi \<and> 0 < MAX_TOKEN) \<and>
   gen_tokens example_h hi MAX_TOKEN =
     Some [Token 2 0 [0x48, 0x69], Token 2 0 [0x48, 0x49],
           Token 2 0 [0x68, 0x69], Token 2 0 [0x68, 0x49]] \<and>
   length [Token 2 0 [0x48, 0x69], Token 2 0 [0x48, 0x49],
           Token 2 0 [0x68, 0x69], Token 2 0 [0x68, 0x49 :: byte]] = 2 ^ 2 \<and>
   set [Token 2 0 [0x48, 0x69], Token 2 0 [0x48, 0x49],
        Token 2 0 [0x68, 0x69], Token 2 0 [0x68, 0x49]] =
     Token 2 0 ` case_variants [0x48, 0x69]"
proof -
  have hyps: "\<not> STRING_IS_HEX hi" "\<not> STRING_IS_REGEXP hi" "STRING_IS_ASCII hi"
    "\<not> STRING_IS_WIDE hi" "STRING_IS_NO_CASE hi" "0 < length_s hi" "0 < MAX_TOKEN"
    by (simp_all add: hi_def MAX_TOKEN_def)
  have m: "min (int (length_s hi)) MAX_TOKEN = 2"
    by (simp add: hi_def MAX_TOKEN_def)
  from ascii_no_case_tokens [OF hyps, of example_h]
  have "set [Token 2 0 [0x48, 0x69], Token 2 0 [0x48, 0x49],
        Token 2 0 [0x68, 0x69], Token 2 0 [0x68, 0x49]] =
     Token 2 0 ` case_variants [0x48, 0x69]"
    unfolding hi_tokens hi_ascii_token m by auto
  with hyps hi_tokens show ?thesis by simp
qed

subsection \<open>Hex tokens on concrete patterns\<close>

text \<open>
  C2. On \<open>98 56 ?? ?? 00 00 00 00 34 EB 45 97 21\<close> with a maximal token length of 4 the
  generator emits one record, but not the one announced: the scan stops at the first
  window of four distinct bytes, which is \<open>00 34 EB 45\<close>, seven bytes into the pattern.
\<close>

theorem hex_example_token:
  "gen_hex_tokens example_h hex_example 4 = Some [Token 4 7 [0x00, 0x34, 0xEB, 0x45]]"
  by code_simp


subsection \<open>Replacing the candidate of the hex token loop\<close>










text \<open>The loop of \<open>hex_zeros\<close> reaches its last byte in the state \<open>hex_zeros_at_5\<close>.\<close>

lemma hex_zeros_rounds:
  "(case hex_body example_h hex_zeros MAX_TOKEN 0xFF hex_init of
      Next s1 \<Rightarrow>
        (case hex_body example_h hex_zeros MAX_TOKEN 0xFF s1 of
           Next s2 \<Rightarrow>
             (case hex_body example_h hex_zeros MAX_TOKEN 0 s2 of
                Next s3 \<Rightarrow>
                  (case hex_body example_h hex_zeros MAX_TOKEN 0xFF s3 of
                     Next s4 \<Rightarrow>
                       (case hex_body example_h hex_zeros MAX_TOKEN 0xFF s4 of
                          Next s5 \<Rightarrow> s5 = hex_zeros_at_5
                        | _ \<Rightarrow> False)
                   | _ \<Rightarrow> False)
              | _ \<Rightarrow> False)
         | _ \<Rightarrow> False)
    | _ \<Rightarrow> False)"
  by code_simp



subsection \<open>The size of the token buffer\<close>

text \<open>
  C9. With \<open>sizeof(int) = 4\<close> the buffer has 388 bytes. A regular expression without a
  literal prefix gets one record of 9 bytes for each of its first bytes, so the 52
  letters of \<open>[a-zA-Z]+x\<close> take 472 bytes.
\<close>

theorem regexp_tokens_exceed_buffer:
  "map_option (bytes_written 4) (gen_tokens example_h letters_regexp MAX_TOKEN) = Some 472 \<and>
   tokens_buffer_size 4 = 388"
  by code_simp

subsection \<open>Creating a child state\<close>

lemma create_state_result:
  assumes "yr_ac_create_state a state input = (a', Some n)"
  shows "n = states_used a"
    and "\<not> arena_fails a (requests a)" and "\<not> arena_fails a (Suc (requests a))"
    and "a' = (let tb = depth (states a state) < MAX_TABLE_BASED_STATES_DEPTH;
                   a1 = a\<lparr>requests := Suc (Suc (requests a)),
                          states := (states a)(states_used a := zero_state tb),
                          states_used := Suc (states_used a)\<rparr>;
                   a2 = (if depth (states a1 state) \<le> MAX_TABLE_BASED_STATES_DEPTH
                         then a1\<lparr>states := (states a1)(state :=
                                  set_table_slot (states a1 state) input n)\<rparr>
                         else a1\<lparr>states := (states a1)(state :=
                                  push_transition (states a1 state) input n)\<rparr>)
               in a2\<lparr>states := (states a2)(n :=
                            (states a2 n)\<lparr>depth := depth (states a2 state) + 1\<rparr>)\<rparr>)"
  using assms
  by (auto simp: yr_ac_create_state_def allocate_state_def arena_request_def Let_def
      split: if_splits prod.splits option.splits bool.splits)

text \<open>
  C8. Let \<open>state\<close> be an allocated state whose layout fits its depth. When
  \<open>_yr_ac_create_state\<close> succeeds for the input byte, it returns a state \<open>n\<close> that was
  not in use before, the transition of \<open>state\<close> on that byte leads to \<open>n\<close> afterwards, \<open>n\<close>
  lies one level deeper, has no output record, no failure link and no transition, is
  dense exactly when its depth is at most \<open>MAX_TABLE_BASED_STATES_DEPTH = 1\<close>, and the
  transitions of \<open>state\<close> on all other bytes are as before. (That the byte had no
  transition before is not needed.)
\<close>

theorem create_state_child:
  assumes ok: "state_layout_ok (states a state)"
    and alloc: "state < states_used a"
    and cr: "yr_ac_create_state a state input = (a', Some n)"
  shows "yr_ac_next_state a' state input = Some n \<and>
     depth (states a' n) = depth (states a state) + 1 \<and>
     matches (states a' n) = None \<and>
     failure (states a' n) = None \<and>
     (is_dense (states a' n) \<longleftrightarrow> depth (states a' n) \<le> 1) \<and>
     (\<forall>b. b \<noteq> input \<longrightarrow> yr_ac_next_state a' state b = yr_ac_next_state a state b) \<and>
     n = states_used a \<and> (\<forall>b. yr_ac_next_state a' n b = None)"
proof -
  note r = create_state_result [OF cr]
  have ne: "state \<noteq> n" using alloc r(1) by simp
  show ?thesis
    using ok ne r(1)
    unfolding r(4)
    by (auto simp: Let_def yr_ac_next_state_def set_table_slot_def push_transition_def
        zero_state_def is_dense_def state_layout_ok_def MAX_TABLE_BASED_STATES_DEPTH_def
        word_unat_eq_iff
        split: AC_TRANSITIONS.splits if_splits)
qed

lemma root_arena_layout: "state_layout_ok (states root_arena 0)"
  by code_simp

lemma root_arena_used: "0 < states_used root_arena"
  by code_simp

lemma root_arena_child: "snd (yr_ac_create_state root_arena 0 0x68) = Some 1"
  by code_simp

theorem create_state_child_root:
  "state_layout_ok (states root_arena 0) \<and> 0 < states_used root_arena \<and>
   snd (yr_ac_create_state root_arena 0 0x68) = Some 1 \<and>
   yr_ac_next_state (fst (yr_ac_create_state root_arena 0 0x68)) 0 0x68 = Some 1 \<and>
   depth (states (fst (yr_ac_create_state root_arena 0 0x68)) 1) = 1 \<and>
   matches (states (fst (yr_ac_create_state root_arena 0 0x68)) 1) = None \<and>
   is_dense (states (fst (yr_ac_create_state root_arena 0 0x68)) 1) \<and>
   yr_ac_next_state (fst (yr_ac_create_state root_arena 0 0x68)) 0 0x73 = None"
proof -
  have cr: "yr_ac_create_state root_arena 0 0x68 =
      (fst (yr_ac_create_state root_arena 0 0x68), Some 1)"
    using root_arena_child by (simp add: prod_eq_iff)
  have d0: "depth (states root_arena 0) = 0" by code_simp
  have n0: "yr_ac_next_state root_arena 0 0x73 = None" by code_simp
  note c = create_state_child [OF root_arena_layout root_arena_used cr]
  note c1 = c [THEN conjunct1]
  note c2 = c [THEN conjunct2, THEN conjunct1]
  note c3 = c [THEN conjunct2, THEN conjunct2, THEN conjunct1]
  note c5 = c [THEN conjunct2, THEN conjunct2, THEN conjunct2, THEN conjunct2, THEN conjunct1]
  note c6 = c [THEN conjunct2, THEN conjunct2, THEN conjunct2, THEN conjunct2, THEN conjunct2,
      THEN conjunct1]
  have e2: "depth (states (fst (yr_ac_create_state root_arena 0 0x68)) 1) = 1"
    using c2 d0 by simp
  have e5: "is_dense (states (fst (yr_ac_create_state root_arena 0 0x68)) 1)"
    using c5 e2 by simp
  have e6: "yr_ac_next_state (fst (yr_ac_create_state root_arena 0 0x68)) 0 0x73 = None"
    using c6 n0 by simp
  show ?thesis
    by (intro conjI root_arena_layout root_arena_used root_arena_child c1 e2 c3 e5 e6)
qed

subsection \<open>Inserting a token\<close>




subsection \<open>The lengths of the tokens\<close>



lemma hex_enter_fields [simp]:
  "hex_token_length (hex_enter h s mx m st) = hex_token_length st"
  "hex_candidate_token_length (hex_enter h s mx m st) = hex_candidate_token_length st"
  by (simp_all add: hex_enter_def Let_def)

lemma hex_advance_fields [simp]:
  "hex_token_length (hex_advance h m st) = hex_token_length st"
  "hex_candidate_token_length (hex_advance h m st) = hex_candidate_token_length st"
  by (simp_all add: hex_advance_def Let_def)





lemma wide_loop_length:
  "i \<le> token_length \<Longrightarrow> int (length (wide_loop s i j token_length)) = token_length - i"
proof (induction s i j token_length rule: wide_loop.induct)
  case (1 s i j token_length)
  show ?case
    apply (subst wide_loop.simps)
    using 1 by auto
qed




subsection \<open>The minimal token length\<close>




lemma hi_read_tokens:
  "map_option (map tok_length \<circ> read_tokens) (gen_tokens example_h hi MAX_TOKEN) =
     Some [2, 2, 2, 2]"
  by code_simp


subsection \<open>The inserted record, on a concrete token\<close>



subsection \<open>The queue is first-in first-out\<close>












subsection \<open>The order of the traversal\<close>

lemma same_shape_refl [simp]: "same_shape a a"
  by (simp add: same_shape_def)

lemma same_shape_trans: "same_shape a b \<Longrightarrow> same_shape b c \<Longrightarrow> same_shape a c"
  by (simp add: same_shape_def)


lemma same_shape_updates [simp]:
  "same_shape (set_failure a s t) a"
  "same_shape (set_matches a s m) a"
  "same_shape (set_match_next a l n) a"
  by (simp_all add: same_shape_def set_failure_def set_matches_def set_match_next_def)

lemma adjust_matches_shape:
  "adjust_matches fuel a root_state current_state = Some a' \<Longrightarrow> same_shape a' a"
  by (auto simp: adjust_matches_def split: option.splits if_splits)

lemma link_state_shape:
  assumes "link_state fuel a root_state input current_state t = Some a'"
  shows "same_shape a' a"
  using assms
  by (auto simp: link_state_def Let_def split: option.splits
      intro: same_shape_trans [OF same_shape_updates(2) same_shape_updates(1)]
             same_shape_trans [OF same_shape_updates(3) same_shape_updates(1)])

lemma queue_inv_arena [simp]:
  "queue_inv yr_malloc (c\<lparr>ls_arena := a\<rparr>) vs = queue_inv yr_malloc c vs"
  by (simp add: queue_inv_def)

lemma push_state_arena [simp]: "ls_arena (push_state yr_malloc c v) = ls_arena c"
  by (simp add: push_state_def split: prod.splits)




















subsection \<open>The root's outputs at a state taken from the queue\<close>

lemma match_chain_unique:
  "match_chain a p xs \<Longrightarrow> match_chain a p ys \<Longrightarrow> xs = ys"
proof (induction xs arbitrary: p ys)
  case Nil
  then show ?case by (cases ys) auto
next
  case (Cons x xs)
  then show ?case by (cases ys) auto
qed

lemma match_chain_suffix:
  "match_chain a p (us @ m # vs) \<Longrightarrow> match_chain a (Some m) (m # vs)"
  by (induction us arbitrary: p) auto

lemma match_chain_distinct: "match_chain a p ms \<Longrightarrow> distinct ms"
proof (induction ms arbitrary: p)
  case Nil
  then show ?case by simp
next
  case (Cons m ms)
  then have tl: "match_chain a (match_next (match_records a m)) ms" and p: "p = Some m"
    by auto
  have "m \<notin> set ms"
  proof
    assume "m \<in> set ms"
    then obtain us vs where ms: "ms = us @ m # vs" by (auto simp: in_set_conv_decomp)
    from match_chain_suffix [OF tl [unfolded ms]]
    have "match_chain a (Some m) (m # vs)" .
    moreover from Cons.prems p have "match_chain a (Some m) (m # ms)" by simp
    ultimately have "m # vs = m # ms" by (rule match_chain_unique)
    with ms show False by simp
  qed
  with Cons.IH [OF tl] show ?case by simp
qed

lemma last_match_chain:
  "match_chain a (Some m) ms \<Longrightarrow> length ms \<le> fuel \<Longrightarrow> last_match fuel a m = Some (last ms)"
proof (induction fuel arbitrary: m ms)
  case 0
  then show ?case by (cases ms) auto
next
  case (Suc fuel)
  from Suc.prems(1) obtain ms' where ms: "ms = m # ms'"
    and tl: "match_chain a (match_next (match_records a m)) ms'"
    by (cases ms) auto
  show ?case
  proof (cases ms')
    case Nil
    with tl ms show ?thesis by simp
  next
    case (Cons m' ms'')
    with tl have nx: "match_next (match_records a m) = Some m'"
      and c: "match_chain a (Some m') ms'" by auto
    from Suc.prems(2) ms have "length ms' \<le> fuel" by simp
    from Suc.IH [OF c this] nx ms Cons show ?thesis by simp
  qed
qed

lemma match_chain_frame:
  "\<forall>m \<in> set ms. match_next (match_records a' m) = match_next (match_records a m) \<Longrightarrow>
   match_chain a' p ms = match_chain a p ms"
  by (induction ms arbitrary: p) auto

lemma match_chain_append:
  "match_chain a p ms \<Longrightarrow> ms \<noteq> [] \<Longrightarrow> match_chain a q rs \<Longrightarrow> last ms \<notin> set rs \<Longrightarrow>
   match_chain (set_match_next a (last ms) q) p (ms @ rs)"
proof (induction ms arbitrary: p)
  case Nil
  then show ?case by simp
next
  case (Cons m ms)
  let ?a = "set_match_next a (last (m # ms)) q"
  show ?case
  proof (cases "ms = []")
    case True
    have "match_chain ?a q rs = match_chain a q rs"
      using Cons.prems(4) True
      by (intro match_chain_frame) (auto simp: set_match_next_def)
    with Cons.prems True show ?thesis
      by (simp add: set_match_next_def)
  next
    case False
    from match_chain_distinct [OF Cons.prems(1)] False have "m \<noteq> last ms"
      by auto
    with Cons.prems Cons.IH [of "match_next (match_records a m)"] False show ?thesis
      by (simp add: set_match_next_def)
  qed
qed

text \<open>
  C6. Let the chain of the state taken from the queue be the list \<open>ms\<close> and the chain of
  the root the list \<open>rs\<close>, and let the fuel cover \<open>ms\<close>. Then lines 824 to 837 end with:
  if \<open>ms\<close> is empty, the state's chain pointer is the root's, so its chain is \<open>rs\<close>; if
  the last record of \<open>ms\<close> has a positive backtrack, that record's next link is the
  root's chain pointer, so the chain is \<open>ms\<close> followed by \<open>rs\<close> (the last record must
  not be one of \<open>rs\<close> for this to be a list); otherwise nothing changes.
\<close>

theorem adjust_matches_root_outputs:
  assumes "match_chain a (matches (states a current_state)) ms"
    and "match_chain a (matches (states a root_state)) rs"
    and "length ms \<le> fuel"
  shows "\<exists>a'. adjust_matches fuel a root_state current_state = Some a' \<and>
     (ms = [] \<longrightarrow>
        a' = set_matches a current_state (matches (states a root_state)) \<and>
        matches (states a' current_state) = matches (states a root_state) \<and>
        match_chain a' (matches (states a' current_state)) rs) \<and>
     (ms \<noteq> [] \<and> match_backtrack (match_records a (last ms)) > 0 \<longrightarrow>
        a' = set_match_next a (last ms) (matches (states a root_state)) \<and>
        match_next (match_records a' (last ms)) = matches (states a root_state) \<and>
        (last ms \<notin> set rs \<longrightarrow> match_chain a' (matches (states a' current_state)) (ms @ rs))) \<and>
     (ms \<noteq> [] \<and> \<not> match_backtrack (match_records a (last ms)) > 0 \<longrightarrow> a' = a)"
proof (cases ms)
  case Nil
  with assms(1) have m: "matches (states a current_state) = None" by simp
  let ?a = "set_matches a current_state (matches (states a root_state))"
  have "match_chain ?a (matches (states a root_state)) rs = 
        match_chain a (matches (states a root_state)) rs"
    by (intro match_chain_frame) (simp add: set_matches_def)
  with assms(2) m Nil show ?thesis
    by (simp add: adjust_matches_def set_matches_def)
next
  case (Cons m0 ms')
  with assms(1) have m: "matches (states a current_state) = Some m0"
    and c: "match_chain a (Some m0) ms" by auto
  from last_match_chain [OF c assms(3)] have l: "last_match fuel a m0 = Some (last ms)" .
  have ne: "ms \<noteq> []" using Cons by simp
  have app: "match_chain (set_match_next a (last ms) (matches (states a root_state)))
               (matches (states a current_state)) (ms @ rs)" if "last ms \<notin> set rs"
    using match_chain_append [OF assms(1) ne assms(2) that] .
  show ?thesis
    using m l ne app
    by (auto simp: adjust_matches_def set_match_next_def)
qed


lemma root_match_chain_state: "match_chain root_match_arena (matches (states root_match_arena 1)) [1]"
  by code_simp

lemma root_match_chain_root: "match_chain root_match_arena (matches (states root_match_arena 0)) [0]"
  by code_simp

lemma root_match_backtrack: "match_backtrack (match_records root_match_arena 1) = 1"
  by code_simp

theorem adjust_matches_root_outputs_example:
  "match_chain root_match_arena (matches (states root_match_arena 1)) [1] \<and>
   match_chain root_match_arena (matches (states root_match_arena 0)) [0] \<and>
   length [1 :: addr] \<le> 5 \<and>
   0 < match_backtrack (match_records root_match_arena 1) \<and>
   (\<exists>a'. adjust_matches 5 root_match_arena 0 1 = Some a' \<and>
      match_chain a' (matches (states a' 1)) [1, 0])"
proof -
  have len: "length [1 :: addr] \<le> 5" by simp
  have bt: "0 < match_backtrack (match_records root_match_arena 1)"
    by (subst root_match_backtrack) simp
  from adjust_matches_root_outputs [OF root_match_chain_state root_match_chain_root len]
  obtain a' where a': "adjust_matches 5 root_match_arena 0 1 = Some a'"
    and app: "[1 :: addr] \<noteq> [] \<and>
        match_backtrack (match_records root_match_arena (last [1])) > 0 \<longrightarrow>
        a' = set_match_next root_match_arena (last [1]) (matches (states root_match_arena 0)) \<and>
        match_next (match_records a' (last [1])) = matches (states root_match_arena 0) \<and>
        (last [1] \<notin> set [0 :: addr] \<longrightarrow> match_chain a' (matches (states a' 1)) ([1] @ [0]))"
    by blast
  have e1: "[1 :: addr] \<noteq> []" and e2: "last [1 :: addr] = 1"
    and e3: "(1 :: addr) \<notin> set [0]" and e4: "[1] @ [0] = [1, 0 :: addr]"
    by simp_all
  from app [unfolded e2 e4] e1 bt e3
  have "match_chain a' (matches (states a' 1)) [1, 0]" by blast
  with a' have "\<exists>a'. adjust_matches 5 root_match_arena 0 1 = Some a' \<and>
      match_chain a' (matches (states a' 1)) [1, 0]" by blast
  with root_match_chain_state root_match_chain_root len bt show ?thesis by blast
qed

subsection \<open>Where the failure links can lead\<close>

lemma same_shape_next_state:
  "same_shape a b \<Longrightarrow> yr_ac_next_state a f i = yr_ac_next_state b f i"
  by (simp add: same_shape_def yr_ac_next_state_def)

lemma failure_updates [simp]:
  "failure (states (set_failure a s t) k) = (if k = s then Some t else failure (states a k))"
  "failure (states (set_matches a s m) k) = failure (states a k)"
  "failure (states (set_match_next a l n) k) = failure (states a k)"
  by (simp_all add: set_failure_def set_matches_def set_match_next_def)

lemma adjust_matches_failure:
  "adjust_matches fuel a root_state current_state = Some a' \<Longrightarrow>
   failure (states a' s) = failure (states a s)"
  by (auto simp: adjust_matches_def split: option.splits if_splits)

lemma find_failure_target:
  "find_failure fuel a root_state input f0 = Some (Some t) \<Longrightarrow>
   \<exists>f. yr_ac_next_state a f input = Some t"
  by (induction fuel arbitrary: f0) (auto split: option.splits if_splits)

lemma link_state_failure:
  assumes "link_state fuel a root_state input current_state t = Some a'"
  shows "\<exists>r. (\<forall>s. failure (states a' s) = (if s = t then Some r else failure (states a s))) \<and>
           (\<exists>f0. failure (states a current_state) = Some f0 \<and>
              (find_failure fuel a root_state input f0 = Some (Some r) \<or>
               find_failure fuel a root_state input f0 = Some None \<and> r = root_state))"
  using assms
  by (auto simp: link_state_def Let_def split: option.splits)

lemma link_children_arena:
  assumes lnk: "\<And>a t a'. P a \<Longrightarrow>
      link_state fuel a root_state input current_state t = Some a' \<Longrightarrow> P a'"
  shows "link_children fuel yr_malloc root_state input current_state ts c = Some c' \<Longrightarrow>
     P (ls_arena c) \<Longrightarrow> P (ls_arena c')"
proof (induction ts arbitrary: c)
  case Nil
  then show ?case by simp
next
  case (Cons t ts)
  let ?c1 = "push_state yr_malloc c t"
  from Cons.prems(1) obtain a1 where
    ls: "link_state fuel (ls_arena ?c1) root_state input current_state t = Some a1"
    and rest: "link_children fuel yr_malloc root_state input current_state ts
                 (?c1\<lparr>ls_arena := a1\<rparr>) = Some c'"
    by (auto simp: Let_def split: option.splits)
  from Cons.prems(2) have "P (ls_arena ?c1)" by simp
  from lnk [OF this ls] have "P (ls_arena (?c1\<lparr>ls_arena := a1\<rparr>))" by simp
  from Cons.IH [OF rest this] show ?case .
qed

lemma links_loop_arena:
  assumes adj: "\<And>fuel a cur a'. P a \<Longrightarrow>
      adjust_matches fuel a root_state cur = Some a' \<Longrightarrow> P a'"
    and lnk: "\<And>fuel a cur t a'. P a \<Longrightarrow>
      link_state fuel a root_state input cur t = Some a' \<Longrightarrow> P a'"
  shows "links_loop fuel yr_malloc root_state input c visited = Some (c', visited') \<Longrightarrow>
     P (ls_arena c) \<Longrightarrow> P (ls_arena c')"
proof (induction fuel arbitrary: c visited)
  case 0
  then show ?case by simp
next
  case (Suc fuel)
  show ?case
  proof (cases "yr_ac_queue_is_empty (ls_queue c)")
    case True
    with Suc.prems show ?thesis by simp
  next
    case False
    with Suc.prems(1) obtain cur mem queue a1 c2 where
      ad: "adjust_matches fuel (ls_arena c) root_state cur = Some a1"
      and lc: "link_children fuel yr_malloc root_state input cur (children a1 cur)
                 (c\<lparr>ls_arena := a1, ls_memory := mem, ls_queue := queue\<rparr>) = Some c2"
      and rest: "links_loop fuel yr_malloc root_state input c2 (visited @ [cur]) =
                   Some (c', visited')"
      by (auto split: option.splits prod.splits)
    from adj [OF Suc.prems(2) ad]
    have "P (ls_arena (c\<lparr>ls_arena := a1, ls_memory := mem, ls_queue := queue\<rparr>))" by simp
    from link_children_arena [of P fuel root_state input cur, OF lnk lc this]
    have "P (ls_arena c2)" .
    from Suc.IH [OF rest this] show ?thesis .
  qed
qed

lemma links_init_arena:
  assumes st: "\<And>a s. P a \<Longrightarrow> P (set_failure a s root_state)" and "P a"
  shows "P (ls_arena (links_init yr_malloc a root_state))"
proof -
  have "P (ls_arena c) \<Longrightarrow> P (ls_arena (fold (\<lambda>state c. (push_state yr_malloc c state)
                        \<lparr>ls_arena := set_failure (ls_arena c) state root_state\<rparr>) ts c))"
    for ts c
    by (induction ts arbitrary: c) (simp_all add: st)
  then show ?thesis
    unfolding links_init_def using st [OF assms(2)] by simp
qed

lemma create_failure_links_arena:
  assumes st: "\<And>a s. P a \<Longrightarrow> P (set_failure a s root_state)"
    and adj: "\<And>fuel a cur a'. P a \<Longrightarrow>
      adjust_matches fuel a root_state cur = Some a' \<Longrightarrow> P a'"
    and lnk: "\<And>fuel a cur t a'. P a \<Longrightarrow>
      link_state fuel a root_state input cur t = Some a' \<Longrightarrow> P a'"
    and run: "yr_ac_create_failure_links fuel yr_malloc a root_state input = Some (c, visited)"
    and "P a"
  shows "P (ls_arena c)"
proof (rule links_loop_arena [where P = P and root_state = root_state and input = input])
  fix fuel a cur a' assume "P a" and "adjust_matches fuel a root_state cur = Some a'"
  then show "P a'" by (rule adj)
next
  fix fuel a cur t a' assume "P a" and "link_state fuel a root_state input cur t = Some a'"
  then show "P a'" by (rule lnk)
next
  show "links_loop fuel yr_malloc root_state input (links_init yr_malloc a root_state) [] =
      Some (c, visited)"
    using run by (simp add: yr_ac_create_failure_links_def)
next
  show "P (ls_arena (links_init yr_malloc a root_state))"
  proof (rule links_init_arena)
    fix a s assume "P a" then show "P (set_failure a s root_state)" by (rule st)
  next
    show "P a" by fact
  qed
qed

lemma create_failure_links_from_input:
  assumes run: "yr_ac_create_failure_links fuel yr_malloc a root_state input = Some (c, visited)"
    and none: "\<forall>s. failure (states a s) = None"
  shows "links_from_input a root_state input (ls_arena c)"
proof (rule create_failure_links_arena [where P = "links_from_input a root_state input", OF _ _ _ run])
  show "links_from_input a root_state input a"
    using none by (simp add: links_from_input_def)
next
  fix a1 s assume "links_from_input a root_state input a1"
  then show "links_from_input a root_state input (set_failure a1 s root_state)"
    by (auto simp: links_from_input_def intro: same_shape_trans [OF same_shape_updates(1)])
next
  fix fuel a1 cur a' assume p: "links_from_input a root_state input a1"
    and ad: "adjust_matches fuel a1 root_state cur = Some a'"
  from adjust_matches_shape [OF ad] adjust_matches_failure [OF ad] p
  show "links_from_input a root_state input a'"
    by (auto simp: links_from_input_def intro: same_shape_trans)
next
  fix fuel a1 cur t a' assume p: "links_from_input a root_state input a1"
    and ls: "link_state fuel a1 root_state input cur t = Some a'"
  from p have sh: "same_shape a1 a" by (simp add: links_from_input_def)
  from link_state_failure [OF ls] obtain r f0 where
    f: "\<forall>s. failure (states a' s) = (if s = t then Some r else failure (states a1 s))"
    and r: "find_failure fuel a1 root_state input f0 = Some (Some r) \<or> r = root_state"
    by blast
  from r have "r = root_state \<or> (\<exists>f. yr_ac_next_state a f input = Some r)"
    using find_failure_target [of fuel a1 root_state input f0 r]
      same_shape_next_state [OF sh] by auto
  with f p link_state_shape [OF ls] sh show "links_from_input a root_state input a'"
    by (auto simp: links_from_input_def intro: same_shape_trans)
qed

lemma create_failure_links_to_root:
  assumes run: "yr_ac_create_failure_links fuel yr_malloc a root_state input = Some (c, visited)"
    and none: "\<forall>s. failure (states a s) = None"
    and noedge: "yr_ac_next_state a root_state input = None"
  shows "links_to_root a root_state (ls_arena c)"
proof (rule create_failure_links_arena [where P = "links_to_root a root_state", OF _ _ _ run])
  show "links_to_root a root_state a"
    using none by (simp add: links_to_root_def)
next
  fix a1 s assume "links_to_root a root_state a1"
  then show "links_to_root a root_state (set_failure a1 s root_state)"
    by (auto simp: links_to_root_def intro: same_shape_trans [OF same_shape_updates(1)])
next
  fix fuel a1 cur a' assume p: "links_to_root a root_state a1"
    and ad: "adjust_matches fuel a1 root_state cur = Some a'"
  from adjust_matches_shape [OF ad] adjust_matches_failure [OF ad] p
  show "links_to_root a root_state a'"
    by (auto simp: links_to_root_def intro: same_shape_trans)
next
  fix fuel a1 cur t a' assume p: "links_to_root a root_state a1"
    and ls: "link_state fuel a1 root_state input cur t = Some a'"
  from p have sh: "same_shape a1 a" by (simp add: links_to_root_def)
  from link_state_failure [OF ls] obtain r f0 where
    f: "\<forall>s. failure (states a' s) = (if s = t then Some r else failure (states a1 s))"
    and f0: "failure (states a1 cur) = Some f0"
    and r: "find_failure fuel a1 root_state input f0 = Some (Some r) \<or> r = root_state"
    by blast
  from p f0 have "f0 = root_state" by (simp add: links_to_root_def)
  moreover have "find_failure fuel a1 root_state input root_state \<noteq> Some (Some r)"
    using noedge same_shape_next_state [OF sh, of root_state input]
    by (cases fuel) auto
  ultimately have "r = root_state" using r by auto
  with f p link_state_shape [OF ls] sh show "links_to_root a root_state a'"
    by (auto simp: links_to_root_def intro: same_shape_trans)
qed

subsection \<open>The failure links of two automata\<close>

lemma ascii_tokens:
  "gen_tokens example_h (ascii_string [0x73, 0x68, 0x65]) 4 = Some [Token 3 0 [0x73, 0x68, 0x65]]"
  "gen_tokens example_h (ascii_string [0x68, 0x65]) 4 = Some [Token 2 0 [0x68, 0x65]]"
  "gen_tokens example_h (ascii_string [0x68, 0x69, 0x73]) 4 = Some [Token 3 0 [0x68, 0x69, 0x73]]"
  "gen_tokens example_h (ascii_string [0x68, 0x65, 0x72, 0x73]) 4 =
     Some [Token 4 0 [0x68, 0x65, 0x72, 0x73]]"
  "gen_tokens example_h (ascii_string [0x61, 0x61, 0x62]) 4 = Some [Token 3 0 [0x61, 0x61, 0x62]]"
  by code_simp+

lemmas build_defs = root_arena_def yr_ac_create_automaton_def empty_arena_def
  allocate_state_def arena_request_def zero_state_def yr_ac_next_state_def yr_ac_create_state_def
  set_table_slot_def push_transition_def MAX_TABLE_BASED_STATES_DEPTH_def Let_def
  allocate_match_def attach_match_def add_token_def first_token_length_def yr_ac_add_string_def
  MAX_TOKEN_def

lemma ushers_states_eq: "states ushers_arena = ushers_states"
  by (simp add: ascii_tokens ushers_arena_def build_defs ushers_states_def fun_eq_iff)

lemma aab_states_eq: "states aab_arena = aab_states"
  by (simp add: ascii_tokens aab_arena_def build_defs aab_states_def fun_eq_iff)

lemma ushers_no_links: "failure (states ushers_arena s) = None"
  by (simp add: ushers_states_eq ushers_states_def zero_state_def)

lemma aab_no_links: "failure (states aab_arena s) = None"
  by (simp add: aab_states_eq aab_states_def zero_state_def)

lemma unat_byte_101: "unat (b :: byte) = 101 \<Longrightarrow> b = 0x65"
  by (simp add: word_unat_eq_iff)

lemma ushers_edge_into_he:
  "yr_ac_next_state ushers_arena f input = Some 5 \<Longrightarrow> input = 0x65"
  by (auto simp: yr_ac_next_state_def ushers_states_eq ushers_states_def zero_state_def
      MAX_TABLE_BASED_STATES_DEPTH_def unat_byte_101 split: if_splits)

lemma ushers_root_no_e: "yr_ac_next_state ushers_arena 0 0x65 = None"
  by (simp add: yr_ac_next_state_def ushers_states_eq ushers_states_def
      MAX_TABLE_BASED_STATES_DEPTH_def)

lemma ushers_she: "snd (walk_token ushers_arena 0 [0x73, 0x68, 0x65]) = Some 3"
  by (simp add: yr_ac_next_state_def ushers_states_eq ushers_states_def
      MAX_TABLE_BASED_STATES_DEPTH_def)

lemma ushers_he: "snd (walk_token ushers_arena 0 [0x68, 0x65]) = Some 5"
  by (simp add: yr_ac_next_state_def ushers_states_eq ushers_states_def
      MAX_TABLE_BASED_STATES_DEPTH_def)

lemma ushers_she_not_he:
  "map_option (\<lambda>(c, v). failure (states (ls_arena c) 3))
     (yr_ac_create_failure_links fuel yr_malloc ushers_arena 0 input) \<noteq> Some (Some 5)"
proof
  assume "map_option (\<lambda>(c, v). failure (states (ls_arena c) 3))
     (yr_ac_create_failure_links fuel yr_malloc ushers_arena 0 input) = Some (Some 5)"
  then obtain c v where
    run: "yr_ac_create_failure_links fuel yr_malloc ushers_arena 0 input = Some (c, v)"
    and f: "failure (states (ls_arena c) 3) = Some 5"
    by auto
  have none: "\<forall>s. failure (states ushers_arena s) = None" by (simp add: ushers_no_links)
  from create_failure_links_from_input [OF run none]
  have "\<forall>s r. failure (states (ls_arena c) s) = Some r \<longrightarrow>
          r = 0 \<or> (\<exists>g. yr_ac_next_state ushers_arena g input = Some r)"
    by (simp add: links_from_input_def)
  with f have "(5 :: addr) = 0 \<or> (\<exists>g. yr_ac_next_state ushers_arena g input = Some 5)"
    by blast
  then obtain g where "yr_ac_next_state ushers_arena g input = Some 5"
    by auto
  then have i: "input = 0x65" by (rule ushers_edge_into_he)
  from create_failure_links_to_root [OF run [unfolded i] none ushers_root_no_e]
  have "\<forall>s r. failure (states (ls_arena c) s) = Some r \<longrightarrow> r = 0"
    by (simp add: links_to_root_def)
  with f have "(5 :: addr) = 0" by blast
  then show False by simp
qed

lemma aab_root_edges: "input \<noteq> 0x61 \<Longrightarrow> yr_ac_next_state aab_arena 0 input = None"
  by (auto simp: yr_ac_next_state_def aab_states_eq aab_states_def
      MAX_TABLE_BASED_STATES_DEPTH_def word_unat_eq_iff)


lemma aab_eval_a:
  "map_option (\<lambda>(c, v). (failure (states (ls_arena c) 2), failure (states (ls_arena c) 3)))
     (yr_ac_create_failure_links 8 fresh_malloc aab_arena 0 0x61) = Some (Some 1, Some 2)"
  by code_simp

lemma aab_eval_0:
  "map_option (\<lambda>(c, v). (failure (states (ls_arena c) 2), failure (states (ls_arena c) 3)))
     (yr_ac_create_failure_links 8 fresh_malloc aab_arena 0 0) = Some (Some 0, Some 0)"
  by code_simp

lemma aab_never_right:
  "map_option (\<lambda>(c, v). (failure (states (ls_arena c) 2), failure (states (ls_arena c) 3)))
     (yr_ac_create_failure_links 8 fresh_malloc aab_arena 0 input) \<noteq> Some (Some 1, Some 0)"
proof (cases "input = 0x61")
  case True
  then show ?thesis by (simp add: aab_eval_a)
next
  case False
  show ?thesis
  proof
    assume "map_option (\<lambda>(c, v). (failure (states (ls_arena c) 2), failure (states (ls_arena c) 3)))
     (yr_ac_create_failure_links 8 fresh_malloc aab_arena 0 input) = Some (Some 1, Some 0)"
    then obtain c v where
      run: "yr_ac_create_failure_links 8 fresh_malloc aab_arena 0 input = Some (c, v)"
      and f: "failure (states (ls_arena c) 2) = Some 1"
      by auto
    have none: "\<forall>s. failure (states aab_arena s) = None" by (simp add: aab_no_links)
    from create_failure_links_to_root [OF run none aab_root_edges [OF False]]
    have "\<forall>s r. failure (states (ls_arena c) s) = Some r \<longrightarrow> r = 0"
      by (simp add: links_to_root_def)
    with f have "(1 :: addr) = 0" by blast
    then show False by simp
  qed
qed

text \<open>
  C1. In the automaton for she, he, his and hers the state of she is 3 and the state of
  he is 5, and whatever byte the unset variable \<open>i\<close> yields, with any fuel and any
  allocator, the failure link of she is not he when \<open>yr_ac_create_failure_links\<close>
  returns. In the automaton for aab the links ought to be a for aa and the root for
  aab: with the byte a the code links aab to aa, with the byte 0 it links aa to the
  root, and with no byte are both links right.
\<close>

theorem failure_links_read_unset_input:
  "snd (walk_token ushers_arena 0 [0x73, 0x68, 0x65]) = Some 3 \<and>
   snd (walk_token ushers_arena 0 [0x68, 0x65]) = Some 5 \<and>
   map_option (\<lambda>(c, v). failure (states (ls_arena c) 3))
     (yr_ac_create_failure_links fuel yr_malloc ushers_arena 0 input) \<noteq> Some (Some 5) \<and>
   map_option (\<lambda>(c, v). (failure (states (ls_arena c) 2), failure (states (ls_arena c) 3)))
     (yr_ac_create_failure_links 8 fresh_malloc aab_arena 0 0x61) = Some (Some 1, Some 2) \<and>
   map_option (\<lambda>(c, v). (failure (states (ls_arena c) 2), failure (states (ls_arena c) 3)))
     (yr_ac_create_failure_links 8 fresh_malloc aab_arena 0 0) = Some (Some 0, Some 0) \<and>
   map_option (\<lambda>(c, v). (failure (states (ls_arena c) 2), failure (states (ls_arena c) 3)))
     (yr_ac_create_failure_links 8 fresh_malloc aab_arena 0 input) \<noteq> Some (Some 1, Some 0)"
  by (intro conjI ushers_she ushers_he ushers_she_not_he aab_eval_a aab_eval_0 aab_never_right)

end
